theory Spec2Isabelle
  imports Main "HOL-Library.Word"
begin

section \<open>Binary payload codec of iota.js (src/binary/payload.ts)\<close>

text \<open>
  The payload layer converts payload objects (transaction, milestone, indexation, receipt)
  to and from a length-framed binary format. The functions of \<^verbatim>\<open>payload.ts\<close> are
  embedded one to one. A thrown \<^verbatim>\<open>Error\<close> is a value of type \<open>error\<close>; the mutable
  streams are records that are passed in and returned.
\<close>

subsection \<open>Errors\<close>

text \<open>
  One constructor for every kind of \<^verbatim>\<open>throw\<close>. The arguments are the values the
  message of the source interpolates.
  \<^item> \<open>TruncatedInput what required reported\<close>: a size precheck or a stream read found too
    few bytes; \<open>what\<close> is the leading words of the message or the field name of the read.
  \<^item> \<open>TypeTagMismatch what tag\<close>: \<^verbatim>\<open>Type mismatch in ...\<close>.
  \<^item> \<open>UnknownPayloadType tag\<close>: \<^verbatim>\<open>Unrecognized payload type\<close> on decode,
    \<^verbatim>\<open>Unrecognized transaction type\<close> on encode.
  \<^item> \<open>InvalidNestedPayloadKind\<close>: \<^verbatim>\<open>Milestones only support embedded receipt payload type\<close>.
  \<^item> \<open>IndexLengthOutOfRange actual bound\<close>: the indexation key length checks.
  \<^item> \<open>UnrecognizedEssenceType reported\<close>: \<^verbatim>\<open>Unrecognized transaction essence type\<close>.
  \<^item> \<open>InvalidHex\<close>, \<open>HexLengthMismatch\<close>: the writer refuses a fixed-length hex value.
  \<^item> \<open>CollaboratorError\<close>: a failure raised inside one of the external sub-codecs.
\<close>

datatype error =
    TruncatedInput string nat nat
  | TypeTagMismatch string nat
  | UnknownPayloadType nat
  | InvalidNestedPayloadKind
  | IndexLengthOutOfRange nat nat
  | UnrecognizedEssenceType nat
  | InvalidHex string
  | HexLengthMismatch string nat nat
  | CollaboratorError nat

fun is_TruncatedInput :: "error \<Rightarrow> bool" where
  "is_TruncatedInput (TruncatedInput _ _ _) = True"
| "is_TruncatedInput _ = False"

fun is_IndexLengthOutOfRange :: "error \<Rightarrow> bool" where
  "is_IndexLengthOutOfRange (IndexLengthOutOfRange _ _) = True"
| "is_IndexLengthOutOfRange _ = False"


subsection \<open>Bytes, little-endian integers, hex and ASCII conversion\<close>

type_synonym byte = "8 word"

text \<open>
  Modelled from the spec: the byte cursor's fixed-width integers (\<^verbatim>\<open>utils/readStream\<close>,
  \<^verbatim>\<open>utils/writeStream\<close> are not among the sources). An unsigned integer of \<open>n\<close> bytes
  is stored least significant byte first; a value that does not fit keeps its low
  \<open>8 * n\<close> bits, as a store into a byte array does.
\<close>

fun le_bytes :: "nat \<Rightarrow> nat \<Rightarrow> byte list" where
  "le_bytes 0 v = []"
| "le_bytes (Suc n) v = of_nat v # le_bytes n (v div 256)"

fun le_nat :: "byte list \<Rightarrow> nat" where
  "le_nat [] = 0"
| "le_nat (b # bs) = unat b + 256 * le_nat bs"

text \<open>
  Modelled from the spec: fixed-length byte values are hex-encoded at the API boundary
  (\<^verbatim>\<open>utils/converter\<close> is not among the sources). Two lower-case hex digits per byte.
\<close>

definition hexDigits :: string where
  "hexDigits = ''0123456789abcdef''"

definition hexDigit :: "nat \<Rightarrow> char" where
  "hexDigit n = hexDigits ! (n mod 16)"

fun hexValue_in :: "string \<Rightarrow> char \<Rightarrow> nat" where
  "hexValue_in [] c = 0"
| "hexValue_in (d # ds) c = (if c = d then 0 else Suc (hexValue_in ds c))"

definition hexValue :: "char \<Rightarrow> nat" where
  "hexValue c = hexValue_in hexDigits c"

definition isHex :: "string \<Rightarrow> bool" where
  "isHex s = (even (length s) \<and> list_all (\<lambda>c. c \<in> set hexDigits) s)"

fun bytesToHex :: "byte list \<Rightarrow> string" where
  "bytesToHex [] = []"
| "bytesToHex (b # bs) = hexDigit (unat b div 16) # hexDigit (unat b mod 16) # bytesToHex bs"

fun hexToBytes :: "string \<Rightarrow> byte list" where
  "hexToBytes (a # b # s) = of_nat (16 * hexValue a + hexValue b) # hexToBytes s"
| "hexToBytes _ = []"

text \<open>
  Modelled from the spec: strings are written one byte per character behind a 2-byte
  length. A \<open>char\<close> of HOL is one such byte.
\<close>

definition asciiToBytes :: "string \<Rightarrow> byte list" where
  "asciiToBytes s = map (\<lambda>c. of_nat (of_char c)) s"

definition bytesToAscii :: "byte list \<Rightarrow> string" where
  "bytesToAscii bs = map (\<lambda>b. char_of (unat b)) bs"

subsection \<open>Wire constants\<close>

text \<open>
  Modelled from the spec: \<^verbatim>\<open>binary/common\<close> and \<^verbatim>\<open>crypto/ed25519\<close> are not among
  the sources. Section 6 of the specification fixes the sizes: message id and digest
  32 bytes, public key 32 bytes, signature 64 bytes, type tag and outer length 4 bytes,
  string length prefix 2 bytes. The merkle proof is a digest.
\<close>

definition BYTE_SIZE :: nat where "BYTE_SIZE = 1"
definition UINT16_SIZE :: nat where "UINT16_SIZE = 2"
definition UINT32_SIZE :: nat where "UINT32_SIZE = 4"
definition UINT64_SIZE :: nat where "UINT64_SIZE = 8"
definition TYPE_LENGTH :: nat where "TYPE_LENGTH = UINT32_SIZE"
definition STRING_LENGTH :: nat where "STRING_LENGTH = UINT16_SIZE"
definition MESSAGE_ID_LENGTH :: nat where "MESSAGE_ID_LENGTH = 32"
definition MERKLE_PROOF_LENGTH :: nat where "MERKLE_PROOF_LENGTH = 32"
definition PUBLIC_KEY_SIZE :: nat where "PUBLIC_KEY_SIZE = 32"
definition SIGNATURE_SIZE :: nat where "SIGNATURE_SIZE = 64"

text \<open>
  The type tags. \<open>RECEIPT_PAYLOAD_TYPE\<close> is declared in \<^verbatim>\<open>typings/models/IReceiptPayload.d.ts\<close>;
  the other three are modelled from the spec (section 3), their model files are not among
  the sources.
\<close>

definition TRANSACTION_PAYLOAD_TYPE :: nat where "TRANSACTION_PAYLOAD_TYPE = 0"
definition MILESTONE_PAYLOAD_TYPE :: nat where "MILESTONE_PAYLOAD_TYPE = 1"
definition INDEXATION_PAYLOAD_TYPE :: nat where "INDEXATION_PAYLOAD_TYPE = 2"
definition RECEIPT_PAYLOAD_TYPE :: nat where "RECEIPT_PAYLOAD_TYPE = 3"

subsection \<open>The read stream\<close>

text \<open>
  Modelled from the spec: the reader of section 6 (\<^verbatim>\<open>utils/readStream\<close> is not among the
  sources). A byte buffer and a read position; \<open>hasRemaining n\<close> asks for \<open>n\<close> unread
  bytes; every read names its field, fails with \<open>TruncatedInput\<close> when too few bytes
  remain, and advances the position unless \<open>moveIndex\<close> is false (a peek).
\<close>

record ReadStream =
  r_storage :: "byte list"
  readIndex :: nat

definition rs_length :: "ReadStream \<Rightarrow> nat" where
  "rs_length rs = length (r_storage rs)"

definition unused :: "ReadStream \<Rightarrow> nat" where
  "unused rs = length (r_storage rs) - readIndex rs"

definition hasRemaining :: "ReadStream \<Rightarrow> nat \<Rightarrow> bool" where
  "hasRemaining rs n = (readIndex rs + n \<le> length (r_storage rs))"

type_synonym 'a rresult = "error + ('a \<times> ReadStream)"

definition andThen :: "(error + 'a) \<Rightarrow> ('a \<Rightarrow> error + 'b) \<Rightarrow> error + 'b" where
  "andThen m f = (case m of Inl e \<Rightarrow> Inl e | Inr x \<Rightarrow> f x)"

definition readBytes :: "ReadStream \<Rightarrow> string \<Rightarrow> nat \<Rightarrow> bool \<Rightarrow> (byte list) rresult" where
  "readBytes rs name n moveIndex =
     (if \<not> hasRemaining rs n then Inl (TruncatedInput name n (unused rs))
      else Inr (take n (drop (readIndex rs) (r_storage rs)),
                if moveIndex then rs\<lparr>readIndex := readIndex rs + n\<rparr> else rs))"

definition readByte :: "ReadStream \<Rightarrow> string \<Rightarrow> bool \<Rightarrow> nat rresult" where
  "readByte rs name moveIndex =
     andThen (readBytes rs name BYTE_SIZE moveIndex) (\<lambda>(bs, rs'). Inr (le_nat bs, rs'))"

definition readUInt16 :: "ReadStream \<Rightarrow> string \<Rightarrow> bool \<Rightarrow> nat rresult" where
  "readUInt16 rs name moveIndex =
     andThen (readBytes rs name UINT16_SIZE moveIndex) (\<lambda>(bs, rs'). Inr (le_nat bs, rs'))"

definition readUInt32 :: "ReadStream \<Rightarrow> string \<Rightarrow> bool \<Rightarrow> nat rresult" where
  "readUInt32 rs name moveIndex =
     andThen (readBytes rs name UINT32_SIZE moveIndex) (\<lambda>(bs, rs'). Inr (le_nat bs, rs'))"

definition readUInt64 :: "ReadStream \<Rightarrow> string \<Rightarrow> bool \<Rightarrow> nat rresult" where
  "readUInt64 rs name moveIndex =
     andThen (readBytes rs name UINT64_SIZE moveIndex) (\<lambda>(bs, rs'). Inr (le_nat bs, rs'))"

definition readFixedHex :: "ReadStream \<Rightarrow> string \<Rightarrow> nat \<Rightarrow> string rresult" where
  "readFixedHex rs name n =
     andThen (readBytes rs name n True) (\<lambda>(bs, rs'). Inr (bytesToHex bs, rs'))"

definition readString :: "ReadStream \<Rightarrow> string \<Rightarrow> string rresult" where
  "readString rs name =
     andThen (readUInt16 rs name True) (\<lambda>(stringLength, rs').
     andThen (readBytes rs' name stringLength True) (\<lambda>(bs, rs''). Inr (bytesToAscii bs, rs'')))"

subsection \<open>The write stream\<close>

text \<open>
  Modelled from the spec: the writer of section 6 (\<^verbatim>\<open>utils/writeStream\<close> is not among
  the sources). A growable byte buffer and a separate write position. A write at the
  position overwrites in place and appends past the end; moving the position never
  truncates. A position beyond the end is filled with zero bytes by the next write.
  A write returns the stream together with the error it raised, if any, because the
  stream is mutated in place and stays as it is when an exception leaves the codec.
\<close>

record WriteStream =
  w_storage :: "byte list"
  writeIndex :: nat

type_synonym wresult = "error option \<times> WriteStream"

definition thenW :: "wresult \<Rightarrow> (WriteStream \<Rightarrow> wresult) \<Rightarrow> wresult" where
  "thenW r f = (case r of (None, ws) \<Rightarrow> f ws | (Some e, ws) \<Rightarrow> (Some e, ws))"

definition newWriteStream :: WriteStream where
  "newWriteStream = \<lparr>w_storage = [], writeIndex = 0\<rparr>"

definition finalBytes :: "WriteStream \<Rightarrow> byte list" where
  "finalBytes ws = take (writeIndex ws) (w_storage ws)"

definition getWriteIndex :: "WriteStream \<Rightarrow> nat" where
  "getWriteIndex ws = writeIndex ws"

definition setWriteIndex :: "WriteStream \<Rightarrow> nat \<Rightarrow> WriteStream" where
  "setWriteIndex ws i = ws\<lparr>writeIndex := i\<rparr>"

definition writeBytes :: "WriteStream \<Rightarrow> byte list \<Rightarrow> WriteStream" where
  "writeBytes ws bs =
     (let i = writeIndex ws;
          st = w_storage ws @ replicate (i - length (w_storage ws)) 0
      in \<lparr>w_storage = take i st @ bs @ drop (i + length bs) st,
          writeIndex = i + length bs\<rparr>)"

definition writeByte :: "WriteStream \<Rightarrow> string \<Rightarrow> nat \<Rightarrow> wresult" where
  "writeByte ws name val = (None, writeBytes ws (le_bytes BYTE_SIZE val))"

definition writeUInt16 :: "WriteStream \<Rightarrow> string \<Rightarrow> nat \<Rightarrow> wresult" where
  "writeUInt16 ws name val = (None, writeBytes ws (le_bytes UINT16_SIZE val))"

definition writeUInt32 :: "WriteStream \<Rightarrow> string \<Rightarrow> nat \<Rightarrow> wresult" where
  "writeUInt32 ws name val = (None, writeBytes ws (le_bytes UINT32_SIZE val))"

definition writeUInt64 :: "WriteStream \<Rightarrow> string \<Rightarrow> nat \<Rightarrow> wresult" where
  "writeUInt64 ws name val = (None, writeBytes ws (le_bytes UINT64_SIZE val))"

definition writeFixedHex :: "WriteStream \<Rightarrow> string \<Rightarrow> nat \<Rightarrow> string \<Rightarrow> wresult" where
  "writeFixedHex ws name n val =
     (if \<not> isHex val then (Some (InvalidHex val), ws)
      else if n * 2 \<noteq> length val then (Some (HexLengthMismatch name (length val) (n * 2)), ws)
      else (None, writeBytes ws (hexToBytes val)))"

definition writeString :: "WriteStream \<Rightarrow> string \<Rightarrow> string \<Rightarrow> wresult" where
  "writeString ws name val =
     thenW (writeUInt16 ws name (length val)) (\<lambda>ws. (None, writeBytes ws (asciiToBytes val)))"

subsection \<open>External collaborators\<close>

text \<open>
  The essence codec, the unlock block codec and the migrated funds codec
  (\<^verbatim>\<open>binary/transaction\<close>, \<^verbatim>\<open>binary/unlockBlock\<close>, \<^verbatim>\<open>binary/funds\<close>) and two of
  their constants are not among the sources. The payload codec takes them as a parameter:
  a serializer writes a value to a write stream, a deserializer reads one from a read
  stream. \<open>'e\<close> is the type of essences, \<open>'u\<close> of unlock block lists, \<open>'f\<close> of funds lists.
\<close>

record ('e, 'u, 'f) collaborators =
  TRANSACTION_ESSENCE_TYPE :: nat
  MIN_MIGRATED_FUNDS_LENGTH :: nat
  serializeTransactionEssence :: "WriteStream \<Rightarrow> 'e \<Rightarrow> wresult"
  deserializeTransactionEssence :: "ReadStream \<Rightarrow> 'e rresult"
  serializeUnlockBlocks :: "WriteStream \<Rightarrow> 'u \<Rightarrow> wresult"
  deserializeUnlockBlocks :: "ReadStream \<Rightarrow> 'u rresult"
  serializeFunds :: "WriteStream \<Rightarrow> 'f \<Rightarrow> wresult"
  deserializeFunds :: "ReadStream \<Rightarrow> 'f rresult"

subsection \<open>Payload values\<close>

text \<open>
  The union \<^verbatim>\<open>IIndexationPayload | IMilestonePayload | ITransactionPayload | IReceiptPayload\<close>;
  \<^verbatim>\<open>undefined\<close> is \<open>None\<close> of \<open>payload option\<close>. The \<^verbatim>\<open>type\<close> field of an object is
  fixed by its interface, so it is a function of the constructor. \<open>OtherPayload t\<close> is an
  object whose \<^verbatim>\<open>type\<close> is \<open>t\<close>, none of the four tags. Hex and index values are
  strings; the indexation \<^verbatim>\<open>data\<close> may be missing.

  Fields, in order: \<open>TransactionPayload essence unlockBlocks\<close>;
  \<open>MilestonePayload index timestamp parent1MessageId parent2MessageId inclusionMerkleProof
  publicKeys receipt signatures\<close>; \<open>IndexationPayload index data\<close>;
  \<open>ReceiptPayload migratedAt funds\<close>.
\<close>

datatype ('e, 'u, 'f) payload =
    TransactionPayload 'e 'u
  | MilestonePayload nat nat string string string "string list"
      "('e, 'u, 'f) payload option" "string list"
  | IndexationPayload string "string option"
  | ReceiptPayload nat 'f
  | OtherPayload nat

fun payload_type :: "('e, 'u, 'f) payload \<Rightarrow> nat" where
  "payload_type (TransactionPayload _ _) = TRANSACTION_PAYLOAD_TYPE"
| "payload_type (MilestonePayload _ _ _ _ _ _ _ _) = MILESTONE_PAYLOAD_TYPE"
| "payload_type (IndexationPayload _ _) = INDEXATION_PAYLOAD_TYPE"
| "payload_type (ReceiptPayload _ _) = RECEIPT_PAYLOAD_TYPE"
| "payload_type (OtherPayload t) = t"

subsection \<open>Minimum lengths (payload.ts, lines 20 to 70)\<close>

definition MIN_PAYLOAD_LENGTH :: nat where
  "MIN_PAYLOAD_LENGTH = TYPE_LENGTH"

definition MIN_MILESTONE_PAYLOAD_LENGTH :: nat where
  "MIN_MILESTONE_PAYLOAD_LENGTH =
     MIN_PAYLOAD_LENGTH + UINT32_SIZE + UINT64_SIZE + MESSAGE_ID_LENGTH + MESSAGE_ID_LENGTH +
     MERKLE_PROOF_LENGTH + BYTE_SIZE + PUBLIC_KEY_SIZE + BYTE_SIZE + SIGNATURE_SIZE"

definition MIN_INDEXATION_PAYLOAD_LENGTH :: nat where
  "MIN_INDEXATION_PAYLOAD_LENGTH = MIN_PAYLOAD_LENGTH + STRING_LENGTH + 1 + STRING_LENGTH"

definition MIN_TRANSACTION_PAYLOAD_LENGTH :: nat where
  "MIN_TRANSACTION_PAYLOAD_LENGTH = MIN_PAYLOAD_LENGTH + UINT32_SIZE"

definition MIN_RECEIPT_PAYLOAD_LENGTH :: "('e, 'u, 'f) collaborators \<Rightarrow> nat" where
  "MIN_RECEIPT_PAYLOAD_LENGTH c =
     MIN_PAYLOAD_LENGTH + UINT32_SIZE + UINT16_SIZE + MIN_MIGRATED_FUNDS_LENGTH c"

definition MIN_INDEXATION_KEY_LENGTH :: nat where
  "MIN_INDEXATION_KEY_LENGTH = 1"

definition MAX_INDEXATION_KEY_LENGTH :: nat where
  "MAX_INDEXATION_KEY_LENGTH = 64"

subsection \<open>Serialization (payload.ts, lines 117 to 142, 183 to 193, 250 to 271, 304 to 323, 356 to 362)\<close>

text \<open>The loops over the public keys and over the signatures.\<close>

fun writeFixedHexes :: "WriteStream \<Rightarrow> string \<Rightarrow> nat \<Rightarrow> string list \<Rightarrow> wresult" where
  "writeFixedHexes ws name n [] = (None, ws)"
| "writeFixedHexes ws name n (x # xs) =
     thenW (writeFixedHex ws name n x) (\<lambda>ws. writeFixedHexes ws name n xs)"

fun serializeTransactionPayload ::
  "('e, 'u, 'f) collaborators \<Rightarrow> WriteStream \<Rightarrow> ('e, 'u, 'f) payload \<Rightarrow> wresult" where
  "serializeTransactionPayload c ws (TransactionPayload essence unlockBlocks) =
     thenW (writeUInt32 ws ''payloadMilestone.type''
              (payload_type (TransactionPayload essence unlockBlocks :: ('e, 'u, 'f) payload))) (\<lambda>ws.
     if payload_type (TransactionPayload essence unlockBlocks :: ('e, 'u, 'f) payload) =
        TRANSACTION_PAYLOAD_TYPE then
       thenW (serializeTransactionEssence c ws essence) (\<lambda>ws.
       serializeUnlockBlocks c ws unlockBlocks)
     else (Some (UnknownPayloadType
                  (payload_type (TransactionPayload essence unlockBlocks :: ('e, 'u, 'f) payload))), ws))"
| "serializeTransactionPayload c ws object =
     thenW (writeUInt32 ws ''payloadMilestone.type'' (payload_type object)) (\<lambda>ws.
     (Some (UnknownPayloadType (payload_type object)), ws))"

text \<open>
  \<^verbatim>\<open>if (object.data)\<close> is false for a missing value and for the empty string.
\<close>

fun truthy :: "string option \<Rightarrow> bool" where
  "truthy None = False"
| "truthy (Some s) = (s \<noteq> [])"

fun serializeIndexationPayload :: "WriteStream \<Rightarrow> ('e, 'u, 'f) payload \<Rightarrow> wresult" where
  "serializeIndexationPayload ws (IndexationPayload index data) =
     (if length index < MIN_INDEXATION_KEY_LENGTH then
        (Some (IndexLengthOutOfRange (length index) MIN_INDEXATION_KEY_LENGTH), ws)
      else if length index > MAX_INDEXATION_KEY_LENGTH then
        (Some (IndexLengthOutOfRange (length index) MAX_INDEXATION_KEY_LENGTH), ws)
      else
        thenW (writeUInt32 ws ''payloadIndexation.type''
                 (payload_type (IndexationPayload index data :: ('e, 'u, 'f) payload))) (\<lambda>ws.
        thenW (writeString ws ''payloadIndexation.index'' index) (\<lambda>ws.
        if truthy data then
          thenW (writeUInt32 ws ''payloadIndexation.dataLength'' (length (the data) div 2)) (\<lambda>ws.
          writeFixedHex ws ''payloadIndexation.data'' (length (the data) div 2) (the data))
        else writeUInt32 ws ''payloadIndexation.dataLength'' 0)))"
| "serializeIndexationPayload ws object = (Some (UnknownPayloadType (payload_type object)), ws)"

fun serializeReceiptPayload ::
  "('e, 'u, 'f) collaborators \<Rightarrow> WriteStream \<Rightarrow> ('e, 'u, 'f) payload \<Rightarrow> wresult" where
  "serializeReceiptPayload c ws (ReceiptPayload migratedAt funds) =
     thenW (writeUInt32 ws ''payloadReceipt.type''
              (payload_type (ReceiptPayload migratedAt funds :: ('e, 'u, 'f) payload))) (\<lambda>ws.
     thenW (writeUInt32 ws ''payloadReceipt.migratedAt'' migratedAt) (\<lambda>ws.
     serializeFunds c ws funds))"
| "serializeReceiptPayload c ws object = (Some (UnknownPayloadType (payload_type object)), ws)"

text \<open>
  \<open>serializePayload\<close> and \<open>serializeMilestonePayload\<close> call each other: a milestone
  embeds its receipt through the envelope. The \<^verbatim>\<open>if\<close> chain on \<^verbatim>\<open>object.type\<close> is the
  case distinction on the constructor.
\<close>

fun serializePayload ::
  "('e, 'u, 'f) collaborators \<Rightarrow> WriteStream \<Rightarrow> ('e, 'u, 'f) payload option \<Rightarrow> wresult"
and serializeMilestonePayload ::
  "('e, 'u, 'f) collaborators \<Rightarrow> WriteStream \<Rightarrow> ('e, 'u, 'f) payload \<Rightarrow> wresult" where
  "serializePayload c ws object =
     (let payloadLengthWriteIndex = getWriteIndex ws in
      thenW (writeUInt32 ws ''payload.length'' 0) (\<lambda>ws.
      thenW (case object of
               None \<Rightarrow> (None, ws)
             | Some (TransactionPayload e u) \<Rightarrow>
                 serializeTransactionPayload c ws (TransactionPayload e u)
             | Some (MilestonePayload i t p1 p2 mp pks r sigs) \<Rightarrow>
                 serializeMilestonePayload c ws (MilestonePayload i t p1 p2 mp pks r sigs)
             | Some (IndexationPayload i d) \<Rightarrow>
                 serializeIndexationPayload ws (IndexationPayload i d :: ('e, 'u, 'f) payload)
             | Some (ReceiptPayload m f) \<Rightarrow>
                 serializeReceiptPayload c ws (ReceiptPayload m f)
             | Some (OtherPayload t) \<Rightarrow> (Some (UnknownPayloadType t), ws)) (\<lambda>ws.
      let endOfPayloadWriteIndex = getWriteIndex ws;
          ws = setWriteIndex ws payloadLengthWriteIndex in
      thenW (writeUInt32 ws ''payload.length''
               (endOfPayloadWriteIndex - payloadLengthWriteIndex - UINT32_SIZE)) (\<lambda>ws.
      (None, setWriteIndex ws endOfPayloadWriteIndex)))))"
| "serializeMilestonePayload c ws
       (MilestonePayload index timestamp parent1MessageId parent2MessageId
          inclusionMerkleProof publicKeys receipt signatures) =
     thenW (writeUInt32 ws ''payloadMilestone.type'' MILESTONE_PAYLOAD_TYPE) (\<lambda>ws.
     thenW (writeUInt32 ws ''payloadMilestone.index'' index) (\<lambda>ws.
     thenW (writeUInt64 ws ''payloadMilestone.timestamp'' timestamp) (\<lambda>ws.
     thenW (writeFixedHex ws ''payloadMilestone.parent1MessageId''
              MESSAGE_ID_LENGTH parent1MessageId) (\<lambda>ws.
     thenW (writeFixedHex ws ''payloadMilestone.parent2MessageId''
              MESSAGE_ID_LENGTH parent2MessageId) (\<lambda>ws.
     thenW (writeFixedHex ws ''payloadMilestone.inclusionMerkleProof''
              MERKLE_PROOF_LENGTH inclusionMerkleProof) (\<lambda>ws.
     thenW (writeByte ws ''payloadMilestone.publicKeysCount'' (length publicKeys)) (\<lambda>ws.
     thenW (writeFixedHexes ws ''payloadMilestone.publicKey'' PUBLIC_KEY_SIZE publicKeys) (\<lambda>ws.
     thenW (serializePayload c ws receipt) (\<lambda>ws.
     thenW (writeByte ws ''payloadMilestone.signaturesCount'' (length signatures)) (\<lambda>ws.
     writeFixedHexes ws ''payloadMilestone.signature'' SIGNATURE_SIZE signatures))))))))))"
| "serializeMilestonePayload c ws object = (Some (UnknownPayloadType (payload_type object)), ws)"

subsection \<open>Deserialization (payload.ts, lines 77 to 110, 149 to 176, 200 to 243, 278 to 297, 330 to 349)\<close>

text \<open>The loops over the public keys and over the signatures.\<close>

fun readFixedHexes :: "ReadStream \<Rightarrow> string \<Rightarrow> nat \<Rightarrow> nat \<Rightarrow> (string list) rresult" where
  "readFixedHexes rs name n 0 = Inr ([], rs)"
| "readFixedHexes rs name n (Suc k) =
     andThen (readFixedHex rs name n) (\<lambda>(x, rs).
     andThen (readFixedHexes rs name n k) (\<lambda>(xs, rs). Inr (x # xs, rs)))"

text \<open>
  \<^verbatim>\<open>Number(timestamp)\<close> on the 64-bit integer that was read: the nearest double, ties to
  the even significand. Integers below \<open>2 ^ 53\<close> are kept.
\<close>

fun bit_length :: "nat \<Rightarrow> nat" where
  "bit_length n = (if n = 0 then 0 else Suc (bit_length (n div 2)))"

declare bit_length.simps [simp del]

definition Number :: "nat \<Rightarrow> nat" where
  "Number n =
     (if n < 2 ^ 53 then n
      else let e = bit_length n - 53; q = n div 2 ^ e; r = n mod 2 ^ e
           in if 2 * r < 2 ^ e \<or> (2 * r = 2 ^ e \<and> even q) then q * 2 ^ e else (q + 1) * 2 ^ e)"







definition deserializeTransactionPayload ::
  "('e, 'u, 'f) collaborators \<Rightarrow> ReadStream \<Rightarrow> (('e, 'u, 'f) payload) rresult" where
  "deserializeTransactionPayload c rs =
     (if \<not> hasRemaining rs MIN_TRANSACTION_PAYLOAD_LENGTH then
        Inl (TruncatedInput ''Transaction Payload data'' MIN_TRANSACTION_PAYLOAD_LENGTH (rs_length rs))
      else
        andThen (readUInt32 rs ''payloadTransaction.type'' True) (\<lambda>(type', rs).
        if type' \<noteq> TRANSACTION_PAYLOAD_TYPE then Inl (TypeTagMismatch ''payloadTransaction'' type')
        else
          andThen (readByte rs ''payloadTransaction.essenceType'' False) (\<lambda>(essenceType, rs).
          if essenceType = TRANSACTION_ESSENCE_TYPE c then
            andThen (deserializeTransactionEssence c rs) (\<lambda>(essence, rs).
            andThen (deserializeUnlockBlocks c rs) (\<lambda>(unlockBlocks, rs).
            Inr (TransactionPayload essence unlockBlocks, rs)))
          else Inl (UnrecognizedEssenceType type'))))"

definition deserializeIndexationPayload :: "ReadStream \<Rightarrow> (('e, 'u, 'f) payload) rresult" where
  "deserializeIndexationPayload rs =
     (if \<not> hasRemaining rs MIN_INDEXATION_PAYLOAD_LENGTH then
        Inl (TruncatedInput ''Indexation Payload data'' MIN_INDEXATION_PAYLOAD_LENGTH (rs_length rs))
      else
        andThen (readUInt32 rs ''payloadIndexation.type'' True) (\<lambda>(type', rs).
        if type' \<noteq> INDEXATION_PAYLOAD_TYPE then Inl (TypeTagMismatch ''payloadIndexation'' type')
        else
          andThen (readString rs ''payloadIndexation.index'') (\<lambda>(index, rs).
          andThen (readUInt32 rs ''payloadIndexation.dataLength'' True) (\<lambda>(dataLength, rs).
          andThen (readFixedHex rs ''payloadIndexation.data'' dataLength) (\<lambda>(data, rs).
          Inr (IndexationPayload index (Some data), rs))))))"

definition deserializeReceiptPayload ::
  "('e, 'u, 'f) collaborators \<Rightarrow> ReadStream \<Rightarrow> (('e, 'u, 'f) payload) rresult" where
  "deserializeReceiptPayload c rs =
     (if \<not> hasRemaining rs (MIN_RECEIPT_PAYLOAD_LENGTH c) then
        Inl (TruncatedInput ''Receipt Payload data'' (MIN_RECEIPT_PAYLOAD_LENGTH c) (rs_length rs))
      else
        andThen (readUInt32 rs ''payloadReceipt.type'' True) (\<lambda>(type', rs).
        if type' \<noteq> RECEIPT_PAYLOAD_TYPE then Inl (TypeTagMismatch ''payloadReceipt'' type')
        else
          andThen (readUInt32 rs ''payloadReceipt.migratedAt'' True) (\<lambda>(migratedAt, rs).
          andThen (deserializeFunds c rs) (\<lambda>(funds, rs).
          Inr (ReceiptPayload migratedAt funds, rs)))))"

text \<open>No read gives bytes back: the number of unread bytes never grows.\<close>

lemma readBytes_unused:
  "readBytes rs name n mv = Inr (bs, rs') \<Longrightarrow>
     unused rs' = unused rs - (if mv then n else 0) \<and> (mv \<longrightarrow> n \<le> unused rs)"
  by (auto simp: readBytes_def unused_def hasRemaining_def split: if_splits)

lemma readUInt32_unused_move:
  "readUInt32 rs name True = Inr (v, rs') \<Longrightarrow> unused rs' < unused rs"
  by (auto simp: readUInt32_def andThen_def UINT32_SIZE_def split: sum.splits dest!: readBytes_unused)

lemma readUInt32_unused_peek:
  "readUInt32 rs name False = Inr (v, rs') \<Longrightarrow> unused rs' = unused rs"
  by (auto simp: readUInt32_def andThen_def UINT32_SIZE_def split: sum.splits dest!: readBytes_unused)

lemma readUInt64_unused:
  "readUInt64 rs name mv = Inr (v, rs') \<Longrightarrow> unused rs' \<le> unused rs"
  by (auto simp: readUInt64_def andThen_def split: sum.splits dest!: readBytes_unused)

lemma readByte_unused:
  "readByte rs name mv = Inr (v, rs') \<Longrightarrow> unused rs' \<le> unused rs"
  by (auto simp: readByte_def andThen_def split: sum.splits dest!: readBytes_unused)

lemma readFixedHex_unused:
  "readFixedHex rs name n = Inr (v, rs') \<Longrightarrow> unused rs' \<le> unused rs"
  by (auto simp: readFixedHex_def andThen_def split: sum.splits dest!: readBytes_unused)

lemma readFixedHexes_unused:
  "readFixedHexes rs name n k = Inr (v, rs') \<Longrightarrow> unused rs' \<le> unused rs"
proof (induction k arbitrary: rs v)
  case 0 then show ?case by simp
next
  case (Suc k)
  then show ?case
    by (fastforce simp: andThen_def split: sum.splits prod.splits dest!: readFixedHex_unused)
qed

text \<open>
  \<open>deserializePayload\<close> and \<open>deserializeMilestonePayload\<close> call each other. Each call
  is made on a stream with fewer unread bytes, which is why they terminate.
\<close>

lemma andThen_cong [fundef_cong]:
  "m = m' \<Longrightarrow> (\<And>x. m' = Inr x \<Longrightarrow> f x = f' x) \<Longrightarrow> andThen m f = andThen m' f'"
  by (auto simp: andThen_def split: sum.splits)

function deserializePayload ::
  "('e, 'u, 'f) collaborators \<Rightarrow> ReadStream \<Rightarrow> (('e, 'u, 'f) payload option) rresult"
and deserializeMilestonePayload ::
  "('e, 'u, 'f) collaborators \<Rightarrow> ReadStream \<Rightarrow> (('e, 'u, 'f) payload) rresult" where
  "deserializePayload c rs =
     (if \<not> hasRemaining rs MIN_PAYLOAD_LENGTH then
        Inl (TruncatedInput ''Payload data'' MIN_PAYLOAD_LENGTH (rs_length rs))
      else
        andThen (readUInt32 rs ''payload.length'' True) (\<lambda>(payloadLength, rs).
        if \<not> hasRemaining rs payloadLength then
          Inl (TruncatedInput ''Payload length'' payloadLength (unused rs))
        else if payloadLength > 0 then
          andThen (readUInt32 rs ''payload.type'' False) (\<lambda>(payloadType, rs).
          if payloadType = TRANSACTION_PAYLOAD_TYPE then
            andThen (deserializeTransactionPayload c rs) (\<lambda>(payload, rs). Inr (Some payload, rs))
          else if payloadType = MILESTONE_PAYLOAD_TYPE then
            andThen (deserializeMilestonePayload c rs) (\<lambda>(payload, rs). Inr (Some payload, rs))
          else if payloadType = INDEXATION_PAYLOAD_TYPE then
            andThen (deserializeIndexationPayload rs) (\<lambda>(payload, rs). Inr (Some payload, rs))
          else if payloadType = RECEIPT_PAYLOAD_TYPE then
            andThen (deserializeReceiptPayload c rs) (\<lambda>(payload, rs). Inr (Some payload, rs))
          else Inl (UnknownPayloadType payloadType))
        else Inr (None, rs)))"
| "deserializeMilestonePayload c rs =
     (if \<not> hasRemaining rs MIN_MILESTONE_PAYLOAD_LENGTH then
        Inl (TruncatedInput ''Milestone Payload data'' MIN_MILESTONE_PAYLOAD_LENGTH (rs_length rs))
      else
        andThen (readUInt32 rs ''payloadMilestone.type'' True) (\<lambda>(type', rs).
        if type' \<noteq> MILESTONE_PAYLOAD_TYPE then Inl (TypeTagMismatch ''payloadMilestone'' type')
        else
          andThen (readUInt32 rs ''payloadMilestone.index'' True) (\<lambda>(index, rs).
          andThen (readUInt64 rs ''payloadMilestone.timestamp'' True) (\<lambda>(timestamp, rs).
          andThen (readFixedHex rs ''payloadMilestone.parent1MessageId'' MESSAGE_ID_LENGTH)
            (\<lambda>(parent1MessageId, rs).
          andThen (readFixedHex rs ''payloadMilestone.parent2MessageId'' MESSAGE_ID_LENGTH)
            (\<lambda>(parent2MessageId, rs).
          andThen (readFixedHex rs ''payloadMilestone.inclusionMerkleProof'' MERKLE_PROOF_LENGTH)
            (\<lambda>(inclusionMerkleProof, rs).
          andThen (readByte rs ''payloadMilestone.publicKeysCount'' True) (\<lambda>(publicKeysCount, rs).
          andThen (readFixedHexes rs ''payloadMilestone.publicKey'' PUBLIC_KEY_SIZE publicKeysCount)
            (\<lambda>(publicKeys, rs).
          andThen (deserializePayload c rs) (\<lambda>(receipt, rs).
          if receipt \<noteq> None \<and> payload_type (the receipt) \<noteq> RECEIPT_PAYLOAD_TYPE then
            Inl InvalidNestedPayloadKind
          else
            andThen (readByte rs ''payloadMilestone.signaturesCount'' True) (\<lambda>(signaturesCount, rs).
            andThen (readFixedHexes rs ''payloadMilestone.signature'' SIGNATURE_SIZE signaturesCount)
              (\<lambda>(signatures, rs).
            Inr (MilestonePayload index (Number timestamp) parent1MessageId parent2MessageId
                   inclusionMerkleProof publicKeys receipt signatures, rs)))))))))))))"
  by pat_completeness auto



termination
proof (relation "measure (\<lambda>x. case x of Inl (c, rs) \<Rightarrow> unused rs | Inr (c, rs) \<Rightarrow> unused rs)", goal_cases)
  case 1
  show ?case by simp
next
  case (2 c rs x payloadLength rs1 y payloadType rs2)
  from 2 have "unused rs1 < unused rs" "unused rs2 = unused rs1"
    by (auto dest: readUInt32_unused_move readUInt32_unused_peek)
  then show ?case by simp
next
  case (3 c rs x0 ty rs0 x1 index rs1 x2 timestamp rs2 x3 p1 rs3 x4 p2 rs4 x5 mp rs5 x6 n rs6 x7 pks rs7)
  from 3 have "unused rs0 < unused rs" "unused rs1 < unused rs0" "unused rs2 \<le> unused rs1"
    "unused rs3 \<le> unused rs2" "unused rs4 \<le> unused rs3" "unused rs5 \<le> unused rs4"
    "unused rs6 \<le> unused rs5" "unused rs7 \<le> unused rs6"
    by (auto dest: readUInt32_unused_move readUInt64_unused readFixedHex_unused readByte_unused readFixedHexes_unused)
  then show ?case by simp
qed

section \<open>Properties\<close>

text \<open>
  The recursive equations are unfolded by hand where a proof needs them.
\<close>

declare deserializePayload.simps [simp del] deserializeMilestonePayload.simps [simp del]
declare serializePayload.simps [simp del] serializeMilestonePayload.simps [simp del]
  serializeIndexationPayload.simps [simp del] serializeTransactionPayload.simps [simp del]
  serializeReceiptPayload.simps [simp del]

subsection \<open>An instance of the collaborators\<close>

text \<open>
  A small instance of the external sub-codecs, to run the codec on concrete inputs: an
  essence is one 32-bit number behind its type byte (0), a list of unlock blocks is its
  16-bit count, a list of funds is one 64-bit entry behind a 2-byte count.
\<close>

definition demo :: "(32 word, 16 word, 64 word) collaborators" where
  "demo = \<lparr>
     TRANSACTION_ESSENCE_TYPE = 0,
     MIN_MIGRATED_FUNDS_LENGTH = 8,
     serializeTransactionEssence = (\<lambda>ws e.
        thenW (writeByte ws ''essence.type'' 0) (\<lambda>ws. writeUInt32 ws ''essence.value'' (unat e))),
     deserializeTransactionEssence = (\<lambda>rs.
        andThen (readByte rs ''essence.type'' True) (\<lambda>(t, rs).
        andThen (readUInt32 rs ''essence.value'' True) (\<lambda>(e, rs). Inr (of_nat e, rs)))),
     serializeUnlockBlocks = (\<lambda>ws u. writeUInt16 ws ''unlockBlocks.count'' (unat u)),
     deserializeUnlockBlocks = (\<lambda>rs.
        andThen (readUInt16 rs ''unlockBlocks.count'' True) (\<lambda>(u, rs). Inr (of_nat u, rs))),
     serializeFunds = (\<lambda>ws f.
        thenW (writeUInt16 ws ''funds.count'' 1) (\<lambda>ws. writeUInt64 ws ''funds.amount'' (unat f))),
     deserializeFunds = (\<lambda>rs.
        andThen (readUInt16 rs ''funds.count'' True) (\<lambda>(n, rs).
        andThen (readUInt64 rs ''funds.amount'' True) (\<lambda>(f, rs). Inr (of_nat f, rs))))
   \<rparr>"

subsection \<open>The envelope on the write side\<close>

text \<open>
  \<open>serializeVariant\<close> names the dispatch in the middle of \<open>serializePayload\<close> (lines 124
  to 136); \<open>serializePayload_unfold\<close> shows that the envelope is the placeholder, this
  dispatch and the back-patch.
\<close>

definition serializeVariant ::
  "('e, 'u, 'f) collaborators \<Rightarrow> WriteStream \<Rightarrow> ('e, 'u, 'f) payload option \<Rightarrow> wresult" where
  "serializeVariant c ws object =
     (case object of
        None \<Rightarrow> (None, ws)
      | Some (TransactionPayload e u) \<Rightarrow> serializeTransactionPayload c ws (TransactionPayload e u)
      | Some (MilestonePayload i t p1 p2 mp pks r sigs) \<Rightarrow>
          serializeMilestonePayload c ws (MilestonePayload i t p1 p2 mp pks r sigs)
      | Some (IndexationPayload i d) \<Rightarrow>
          serializeIndexationPayload ws (IndexationPayload i d :: ('e, 'u, 'f) payload)
      | Some (ReceiptPayload m f) \<Rightarrow> serializeReceiptPayload c ws (ReceiptPayload m f)
      | Some (OtherPayload t) \<Rightarrow> (Some (UnknownPayloadType t), ws))"

lemma thenW_simps [simp]:
  "thenW (None, ws) f = f ws"
  "thenW (Some e, ws) f = (Some e, ws)"
  by (simp_all add: thenW_def)

lemma serializePayload_unfold:
  "serializePayload c ws object =
     thenW (writeUInt32 ws ''payload.length'' 0) (\<lambda>ws1.
     thenW (serializeVariant c ws1 object) (\<lambda>ws2.
     (None, setWriteIndex
        (snd (writeUInt32 (setWriteIndex ws2 (writeIndex ws)) ''payload.length''
                (writeIndex ws2 - writeIndex ws - UINT32_SIZE)))
        (writeIndex ws2))))"
  by (simp add: serializePayload.simps serializeVariant_def Let_def getWriteIndex_def
        writeUInt32_def)

lemma length_le_bytes [simp]: "length (le_bytes n v) = n"
  by (induction n arbitrary: v) auto

lemma le_nat_le_bytes: "le_nat (le_bytes n v) = v mod 256 ^ n"
proof (induction n arbitrary: v)
  case 0 show ?case by simp
next
  case (Suc n)
  have "unat (of_nat v :: byte) = v mod 256" by (simp add: unat_of_nat)
  then show ?case using Suc[of "v div 256"]
    by (simp add: mod_mult2_eq)
qed

lemma writeBytes_index [simp]: "writeIndex (writeBytes ws bs) = writeIndex ws + length bs"
  by (simp add: writeBytes_def Let_def)

lemma writeBytes_readback:
  "take (length bs) (drop (writeIndex ws) (w_storage (writeBytes ws bs))) = bs"
  by (simp add: writeBytes_def Let_def)

text \<open>
  Claim C2. After \<open>serializePayload\<close> has completed on any writer and any payload value
  (\<open>None\<close> included), the four bytes at the position where it started hold the number
  of bytes that the variant codec wrote behind them, the end position minus the start
  position minus 4 (as a 4-byte little-endian integer, hence exactly that number when it
  is below \<open>2 ^ 32\<close>), and the writer stands at the end of the body.
\<close>

theorem serializePayload_length_field:
  assumes "serializePayload c ws object = (None, ws')"
  shows "\<exists>ws2. serializeVariant c (snd (writeUInt32 ws ''payload.length'' 0)) object = (None, ws2)
           \<and> writeIndex ws' = writeIndex ws2
           \<and> take 4 (drop (writeIndex ws) (w_storage ws')) =
               le_bytes 4 (writeIndex ws2 - (writeIndex ws + 4))
           \<and> le_nat (take 4 (drop (writeIndex ws) (w_storage ws'))) =
               (writeIndex ws2 - (writeIndex ws + 4)) mod 2 ^ 32"
proof -
  obtain r ws2 where v: "serializeVariant c (snd (writeUInt32 ws ''payload.length'' 0)) object = (r, ws2)"
    by (cases "serializeVariant c (snd (writeUInt32 ws ''payload.length'' 0)) object")
  have r: "r = None" using assms v
    by (cases r) (simp_all add: serializePayload_unfold writeUInt32_def)
  have ws': "ws' = setWriteIndex (writeBytes (setWriteIndex ws2 (writeIndex ws))
                 (le_bytes 4 (writeIndex ws2 - writeIndex ws - 4))) (writeIndex ws2)"
    using assms v r by (simp add: serializePayload_unfold writeUInt32_def UINT32_SIZE_def)
  have f: "take 4 (drop (writeIndex ws) (w_storage ws')) = le_bytes 4 (writeIndex ws2 - (writeIndex ws + 4))"
    using writeBytes_readback [of "le_bytes 4 (writeIndex ws2 - writeIndex ws - 4)" "setWriteIndex ws2 (writeIndex ws)"]
    by (simp add: ws' setWriteIndex_def)
  show ?thesis using v r f by (simp add: ws' setWriteIndex_def le_nat_le_bytes)
qed


text \<open>
  Claim C6. \<open>serializeIndexationPayload\<close> refuses an index of length 0 and one of length
  above 64 (so 65) with \<open>IndexLengthOutOfRange\<close> and leaves the writer as it was; for a
  length from 1 to 64 (so 1 and 64) it never raises that error, and it succeeds when the
  data is missing, empty or a hex string.
\<close>

theorem serializeIndexationPayload_index_bounds:
  "(length index < 1 \<longrightarrow>
      serializeIndexationPayload ws (IndexationPayload index data :: ('e, 'u, 'f) payload) =
        (Some (IndexLengthOutOfRange (length index) 1), ws))
   \<and> (64 < length index \<longrightarrow>
      serializeIndexationPayload ws (IndexationPayload index data :: ('e, 'u, 'f) payload) =
        (Some (IndexLengthOutOfRange (length index) 64), ws))
   \<and> (1 \<le> length index \<and> length index \<le> 64 \<longrightarrow>
        (\<forall>e. fst (serializeIndexationPayload ws (IndexationPayload index data :: ('e, 'u, 'f) payload)) = Some e
             \<longrightarrow> \<not> is_IndexLengthOutOfRange e)
      \<and> ((truthy data \<longrightarrow> isHex (the data)) \<longrightarrow>
           fst (serializeIndexationPayload ws (IndexationPayload index data :: ('e, 'u, 'f) payload)) = None))"
  by (auto simp: serializeIndexationPayload.simps MIN_INDEXATION_KEY_LENGTH_def
        MAX_INDEXATION_KEY_LENGTH_def writeUInt32_def writeString_def writeUInt16_def
        writeFixedHex_def isHex_def)


lemma andThen_simps [simp]:
  "andThen (Inl e) f = Inl e"
  "andThen (Inr x) f = f x"
  by (simp_all add: andThen_def)

lemma readBytes_cases:
  "readBytes rs name n mv =
     (if hasRemaining rs n
      then Inr (take n (drop (readIndex rs) (r_storage rs)),
                if mv then rs\<lparr>readIndex := readIndex rs + n\<rparr> else rs)
      else Inl (TruncatedInput name n (unused rs)))"
  by (simp add: readBytes_def)


lemma andThen_InlE:
  assumes "andThen m f = Inl e"
  obtains "m = Inl e" | x where "m = Inr x" "f x = Inl e"
  using assms by (cases m) auto

lemma andThen_InrE:
  assumes "andThen m f = Inr y"
  obtains x where "m = Inr x" "f x = Inr y"
  using assms by (cases m) auto

lemma readBytes_Inl: "readBytes rs name n mv = Inl e \<Longrightarrow> e = TruncatedInput name n (unused rs)"
  by (auto simp: readBytes_def split: if_splits)

lemma readUInt32_Inl: "readUInt32 rs name mv = Inl e \<Longrightarrow> e = TruncatedInput name 4 (unused rs)"
  by (auto simp: readUInt32_def UINT32_SIZE_def elim!: andThen_InlE dest!: readBytes_Inl)

lemma readUInt16_Inl: "readUInt16 rs name mv = Inl e \<Longrightarrow> e = TruncatedInput name 2 (unused rs)"
  by (auto simp: readUInt16_def UINT16_SIZE_def elim!: andThen_InlE dest!: readBytes_Inl)

lemma readFixedHex_Inl: "readFixedHex rs name n = Inl e \<Longrightarrow> e = TruncatedInput name n (unused rs)"
  by (auto simp: readFixedHex_def elim!: andThen_InlE dest!: readBytes_Inl)

lemma readString_Inl: "readString rs name = Inl e \<Longrightarrow> \<exists>n m. e = TruncatedInput name n m"
  by (auto simp: readString_def elim!: andThen_InlE dest!: readBytes_Inl readUInt16_Inl)









lemma eval_serialize_indexation_A:
  "serializePayload demo newWriteStream (Some (IndexationPayload ''A'' None)) =
     (None, \<lparr>w_storage = [11, 0, 0, 0, 2, 0, 0, 0, 1, 0, 65, 0, 0, 0, 0], writeIndex = 15\<rparr>)"
  by code_simp

theorem serializePayload_length_field_witness:
  "serializePayload demo newWriteStream (Some (IndexationPayload ''A'' None)) =
     (None, \<lparr>w_storage = [11, 0, 0, 0, 2, 0, 0, 0, 1, 0, 65, 0, 0, 0, 0], writeIndex = 15\<rparr>)
   \<and> le_nat (take 4 (drop (writeIndex newWriteStream)
        (w_storage \<lparr>w_storage = [11, 0, 0, 0, 2, 0, 0, 0, 1, 0, 65, 0, 0, 0, 0], writeIndex = 15\<rparr>))) = 11"
  using serializePayload_length_field [OF eval_serialize_indexation_A] eval_serialize_indexation_A
  by (auto simp: newWriteStream_def)

theorem serializeIndexationPayload_index_bounds_witness:
  "serializeIndexationPayload newWriteStream (IndexationPayload [] None :: (nat, nat, nat) payload) =
     (Some (IndexLengthOutOfRange 0 1), newWriteStream)
   \<and> serializeIndexationPayload newWriteStream
        (IndexationPayload (replicate 65 CHR ''a'') None :: (nat, nat, nat) payload) =
     (Some (IndexLengthOutOfRange 65 64), newWriteStream)
   \<and> fst (serializeIndexationPayload newWriteStream
        (IndexationPayload ''A'' None :: (nat, nat, nat) payload)) = None
   \<and> fst (serializeIndexationPayload newWriteStream
        (IndexationPayload (replicate 64 CHR ''a'') (Some ''00ff'') :: (nat, nat, nat) payload)) = None"
  using serializeIndexationPayload_index_bounds [of "[]" newWriteStream None,
      where ?'e = nat and ?'u = nat and ?'f = nat]
    serializeIndexationPayload_index_bounds [of "replicate 65 CHR ''a''" newWriteStream None,
      where ?'e = nat and ?'u = nat and ?'f = nat]
    serializeIndexationPayload_index_bounds [of "''A''" newWriteStream None,
      where ?'e = nat and ?'u = nat and ?'f = nat]
    serializeIndexationPayload_index_bounds [of "replicate 64 CHR ''a''" newWriteStream "Some ''00ff''",
      where ?'e = nat and ?'u = nat and ?'f = nat]
  by (simp add: isHex_def hexDigits_def)



subsection \<open>The concrete scenario\<close>

lemma bytesToAscii_A: "bytesToAscii [65] = ''A''"
  by code_simp

text \<open>
  Claim C7 (as amended). Encoding the indexation payload with index "A" and no data
  through the envelope, on a new writer and with any collaborators, gives 15 bytes: the
  outer length 11, the indexation type tag, the string length 1, the byte of "A" and the
  data length 0. Decoding these 15 bytes consumes all of them and returns the indexation
  payload with index "A" whose data is the empty string: the decoder always returns a
  data string, so the missing data of the original comes back as empty data.
\<close>

theorem serializePayload_indexation_A:
  "serializePayload c newWriteStream (Some (IndexationPayload ''A'' None)) =
     (None, \<lparr>w_storage = le_bytes 4 11 @ le_bytes 4 INDEXATION_PAYLOAD_TYPE @ le_bytes 2 1
                @ asciiToBytes ''A'' @ le_bytes 4 0, writeIndex = 15\<rparr>)
   \<and> le_bytes 4 11 @ le_bytes 4 INDEXATION_PAYLOAD_TYPE @ le_bytes 2 1 @ asciiToBytes ''A'' @ le_bytes 4 0
       = [11, 0, 0, 0, 2, 0, 0, 0, 1, 0, 65, 0, 0, 0, 0]
   \<and> deserializePayload c \<lparr>r_storage = [11, 0, 0, 0, 2, 0, 0, 0, 1, 0, 65, 0, 0, 0, 0], readIndex = 0\<rparr> =
       Inr (Some (IndexationPayload ''A'' (Some [])),
            \<lparr>r_storage = [11, 0, 0, 0, 2, 0, 0, 0, 1, 0, 65, 0, 0, 0, 0], readIndex = 15\<rparr>)"
proof -
  have w: "serializePayload c newWriteStream (Some (IndexationPayload ''A'' None)) =
     (None, \<lparr>w_storage = [11, 0, 0, 0, 2, 0, 0, 0, 1, 0, 65, 0, 0, 0, 0], writeIndex = 15\<rparr>)"
    by code_simp
  have b: "le_bytes 4 11 @ le_bytes 4 INDEXATION_PAYLOAD_TYPE @ le_bytes 2 1 @ asciiToBytes ''A'' @ le_bytes 4 0
       = [11, 0, 0, 0, 2, 0, 0, 0, 1, 0, 65, 0, 0, 0, 0]"
    by code_simp
  have r: "deserializePayload c \<lparr>r_storage = [11, 0, 0, 0, 2, 0, 0, 0, 1, 0, 65, 0, 0, 0, 0], readIndex = 0\<rparr> =
       Inr (Some (IndexationPayload ''A'' (Some [])),
            \<lparr>r_storage = [11, 0, 0, 0, 2, 0, 0, 0, 1, 0, 65, 0, 0, 0, 0], readIndex = 15\<rparr>)"
    by (simp add: deserializePayload.simps deserializeIndexationPayload_def readUInt32_def readString_def
     readUInt16_def readFixedHex_def readBytes_def hasRemaining_def unused_def
     MIN_PAYLOAD_LENGTH_def TYPE_LENGTH_def UINT32_SIZE_def UINT16_SIZE_def STRING_LENGTH_def
     MIN_INDEXATION_PAYLOAD_LENGTH_def TRANSACTION_PAYLOAD_TYPE_def MILESTONE_PAYLOAD_TYPE_def
     INDEXATION_PAYLOAD_TYPE_def bytesToAscii_A)
  show ?thesis unfolding b by (intro conjI w refl r)
qed

text \<open>
  The claim as stated asks for the original value, whose data is missing. Decoding does
  not return it.
\<close>

lemma eval_deserialize_indexation_A:
  "deserializePayload demo \<lparr>r_storage = [11, 0, 0, 0, 2, 0, 0, 0, 1, 0, 65, 0, 0, 0, 0], readIndex = 0\<rparr> =
       Inr (Some (IndexationPayload ''A'' (Some [])),
            \<lparr>r_storage = [11, 0, 0, 0, 2, 0, 0, 0, 1, 0, 65, 0, 0, 0, 0], readIndex = 15\<rparr>)"
  by code_simp

theorem indexation_A_absent_data_counterexample:
  "serializePayload demo newWriteStream (Some (IndexationPayload ''A'' None)) =
     (None, \<lparr>w_storage = [11, 0, 0, 0, 2, 0, 0, 0, 1, 0, 65, 0, 0, 0, 0], writeIndex = 15\<rparr>)
   \<and> (\<forall>rs'. deserializePayload demo
          \<lparr>r_storage = [11, 0, 0, 0, 2, 0, 0, 0, 1, 0, 65, 0, 0, 0, 0], readIndex = 0\<rparr> \<noteq>
        Inr (Some (IndexationPayload ''A'' None), rs'))"
  unfolding eval_deserialize_indexation_A
  by (intro conjI allI eval_serialize_indexation_A) simp

subsection \<open>The write position never moves backwards\<close>

text \<open>
  A writer is \<open>forward\<close> when it leaves the write position at or behind where it found
  it. The stream operations are; the collaborators are assumed to be where it matters.
\<close>

definition forward :: "(WriteStream \<Rightarrow> wresult) \<Rightarrow> bool" where
  "forward f = (\<forall>ws. writeIndex ws \<le> writeIndex (snd (f ws)))"

definition collaborators_forward :: "('e, 'u, 'f) collaborators \<Rightarrow> bool" where
  "collaborators_forward c =
     ((\<forall>v. forward (\<lambda>ws. serializeTransactionEssence c ws v))
      \<and> (\<forall>v. forward (\<lambda>ws. serializeUnlockBlocks c ws v))
      \<and> (\<forall>v. forward (\<lambda>ws. serializeFunds c ws v)))"

lemma forward_thenW: "forward f \<Longrightarrow> forward g \<Longrightarrow> forward (\<lambda>ws. thenW (f ws) g)"
  unfolding forward_def thenW_def
  by (auto split: prod.splits option.splits) (metis le_trans snd_conv)+

lemma forward_return [simp]: "forward (\<lambda>ws. (r, ws))"
  by (simp add: forward_def)

lemma forward_writes [simp]:
  "forward (\<lambda>ws. writeByte ws name v)"
  "forward (\<lambda>ws. writeUInt16 ws name v)"
  "forward (\<lambda>ws. writeUInt32 ws name v)"
  "forward (\<lambda>ws. writeUInt64 ws name v)"
  "forward (\<lambda>ws. writeFixedHex ws name n s)"
  by (simp_all add: forward_def writeByte_def writeUInt16_def writeUInt32_def writeUInt64_def
        writeFixedHex_def)

lemma forward_writeString [simp]: "forward (\<lambda>ws. writeString ws name s)"
  unfolding writeString_def by (intro forward_thenW) (simp_all add: forward_def)

lemma forward_writeFixedHexes [simp]: "forward (\<lambda>ws. writeFixedHexes ws name n xs)"
  by (induction xs) (auto intro!: forward_thenW)

lemma forward_if: "forward f \<Longrightarrow> forward g \<Longrightarrow> forward (\<lambda>ws. if b then f ws else g ws)"
  by (simp add: forward_def)

lemma forward_serializeIndexationPayload: "forward (\<lambda>ws. serializeIndexationPayload ws p)"
proof (cases p)
  case (IndexationPayload index data)
  show ?thesis
    unfolding IndexationPayload serializeIndexationPayload.simps
    by (intro forward_if forward_thenW) simp_all
qed (simp_all add: serializeIndexationPayload.simps)

lemma forward_serializeTransactionPayload:
  "collaborators_forward c \<Longrightarrow> forward (\<lambda>ws. serializeTransactionPayload c ws p)"
proof (cases p)
  case (TransactionPayload e u)
  assume "collaborators_forward c"
  then show ?thesis
    unfolding TransactionPayload serializeTransactionPayload.simps collaborators_forward_def
    by (intro forward_if forward_thenW) simp_all
qed (auto simp: serializeTransactionPayload.simps intro!: forward_thenW)

lemma forward_serializeReceiptPayload:
  "collaborators_forward c \<Longrightarrow> forward (\<lambda>ws. serializeReceiptPayload c ws p)"
proof (cases p)
  case (ReceiptPayload m f)
  assume "collaborators_forward c"
  then show ?thesis
    unfolding ReceiptPayload serializeReceiptPayload.simps collaborators_forward_def
    by (intro forward_if forward_thenW) simp_all
qed (simp_all add: serializeReceiptPayload.simps)

lemma serializePayload_advances:
  assumes v: "forward (\<lambda>ws. serializeVariant c ws object)"
  shows "writeIndex ws + 4 \<le> writeIndex (snd (serializePayload c ws object))"
proof -
  obtain r ws2 where s: "serializeVariant c (writeBytes ws (le_bytes 4 0)) object = (r, ws2)"
    by (cases "serializeVariant c (writeBytes ws (le_bytes 4 0)) object")
  have "writeIndex (writeBytes ws (le_bytes 4 0)) \<le> writeIndex ws2"
    using v s unfolding forward_def by (metis snd_conv)
  then show ?thesis
    by (cases r)
      (simp_all add: serializePayload_unfold writeUInt32_def UINT32_SIZE_def s setWriteIndex_def)
qed

lemma forward_serializePayload_Some:
  assumes c: "collaborators_forward c"
  shows "forward (\<lambda>ws. serializeVariant c ws (Some p))"
proof (induction p)
  case (TransactionPayload e u)
  show ?case using forward_serializeTransactionPayload [OF c] by (simp add: serializeVariant_def)
next
  case (MilestonePayload i t p1 p2 mp pks r sigs)
  have r: "forward (\<lambda>ws. serializeVariant c ws r)"
  proof (cases r)
    case None then show ?thesis by (simp add: serializeVariant_def)
  next
    case (Some q) then show ?thesis using MilestonePayload by simp
  qed
  have "forward (\<lambda>ws. serializePayload c ws r)"
    unfolding forward_def using serializePayload_advances [OF r] by (meson add_leD1)
  then show ?case
    unfolding serializeVariant_def option.case payload.case serializeMilestonePayload.simps
    by (intro forward_thenW) simp_all
next
  case (IndexationPayload i d)
  show ?case using forward_serializeIndexationPayload by (simp add: serializeVariant_def)
next
  case (ReceiptPayload m f)
  show ?case using forward_serializeReceiptPayload [OF c] by (simp add: serializeVariant_def)
next
  case (OtherPayload t)
  show ?case by (simp add: serializeVariant_def)
qed

lemma forward_serializeVariant:
  assumes c: "collaborators_forward c"
  shows "forward (\<lambda>ws. serializeVariant c ws object)"
proof (cases object)
  case None
  show ?thesis unfolding None by (simp add: serializeVariant_def)
next
  case (Some p)
  show ?thesis unfolding Some by (rule forward_serializePayload_Some [OF c])
qed

lemma le_bytes_4:
  "le_bytes 4 v = [of_nat v, of_nat (v div 256), of_nat (v div 256 div 256),
                   of_nat (v div 256 div 256 div 256)]"
proof -
  have "(4::nat) = Suc (Suc (Suc (Suc 0)))" by simp
  then show ?thesis by (simp only: le_bytes.simps)
qed

text \<open>The writer after line 122, the placeholder length written.\<close>

definition placeholder :: "WriteStream \<Rightarrow> WriteStream" where
  "placeholder ws = snd (writeUInt32 ws ''payload.length'' 0)"

text \<open>
  Claim C9. \<open>serializePayload\<close> writes the 4-byte placeholder before it looks at the
  payload: the placeholder moves the position by 4, leaves four zero bytes and changes
  the writer. When the payload type is not recognised, or the indexation index is
  shorter than 1 or longer than 64, the call fails and the writer is left exactly in
  that state. With collaborators that do not move the position backwards, every failing
  call leaves the position at least 4 further, so the writer is never left unchanged.
\<close>

theorem serializePayload_failure_after_placeholder:
  "writeIndex (placeholder ws) = writeIndex ws + 4
   \<and> take 4 (drop (writeIndex ws) (w_storage (placeholder ws))) = [0, 0, 0, 0]
   \<and> placeholder ws \<noteq> ws
   \<and> serializePayload c ws (Some (OtherPayload t)) = (Some (UnknownPayloadType t), placeholder ws)
   \<and> (length index < 1 \<longrightarrow>
        serializePayload c ws (Some (IndexationPayload index data)) =
          (Some (IndexLengthOutOfRange (length index) 1), placeholder ws))
   \<and> (64 < length index \<longrightarrow>
        serializePayload c ws (Some (IndexationPayload index data)) =
          (Some (IndexLengthOutOfRange (length index) 64), placeholder ws))
   \<and> (collaborators_forward c \<longrightarrow> fst (serializePayload c ws object) \<noteq> None \<longrightarrow>
        writeIndex ws + 4 \<le> writeIndex (snd (serializePayload c ws object))
        \<and> snd (serializePayload c ws object) \<noteq> ws)"
proof -
  have i: "writeIndex (placeholder ws) = writeIndex ws + 4"
    by (simp add: placeholder_def writeUInt32_def UINT32_SIZE_def)
  have "take 4 (drop (writeIndex ws) (w_storage (writeBytes ws (le_bytes 4 0)))) = le_bytes 4 0"
    using writeBytes_readback [of "le_bytes 4 0" ws] by simp
  moreover have "le_bytes 4 0 = [0, 0, 0, 0]"
    by (simp add: le_bytes_4)
  ultimately have z: "take 4 (drop (writeIndex ws) (w_storage (placeholder ws))) = [0, 0, 0, 0]"
    by (simp add: placeholder_def writeUInt32_def UINT32_SIZE_def)
  have n: "placeholder ws \<noteq> ws"
  proof
    assume "placeholder ws = ws"
    then have "writeIndex (placeholder ws) = writeIndex ws" by simp
    with i show False by simp
  qed
  have o: "serializePayload c ws (Some (OtherPayload t)) =
      (Some (UnknownPayloadType t), placeholder ws)"
    by (simp add: serializePayload_unfold serializeVariant_def placeholder_def writeUInt32_def)
  have a: "serializePayload c ws (Some (IndexationPayload index data)) =
          (Some (IndexLengthOutOfRange (length index) 1), placeholder ws)" if "length index < 1"
    using that
    by (simp add: serializePayload_unfold serializeVariant_def placeholder_def writeUInt32_def
          serializeIndexationPayload.simps MIN_INDEXATION_KEY_LENGTH_def)
  have b: "serializePayload c ws (Some (IndexationPayload index data)) =
          (Some (IndexLengthOutOfRange (length index) 64), placeholder ws)" if "64 < length index"
    using that
    by (auto simp: serializePayload_unfold serializeVariant_def placeholder_def writeUInt32_def
          serializeIndexationPayload.simps MIN_INDEXATION_KEY_LENGTH_def
          MAX_INDEXATION_KEY_LENGTH_def)
  have g: "collaborators_forward c \<longrightarrow> fst (serializePayload c ws object) \<noteq> None \<longrightarrow>
        writeIndex ws + 4 \<le> writeIndex (snd (serializePayload c ws object))
        \<and> snd (serializePayload c ws object) \<noteq> ws"
  proof (intro impI conjI)
    assume f: "collaborators_forward c"
    show le: "writeIndex ws + 4 \<le> writeIndex (snd (serializePayload c ws object))"
      by (rule serializePayload_advances [OF forward_serializeVariant [OF f]])
    show "snd (serializePayload c ws object) \<noteq> ws"
    proof
      assume "snd (serializePayload c ws object) = ws"
      with le show False by simp
    qed
  qed
  from a have a': "length index < 1 \<longrightarrow>
        serializePayload c ws (Some (IndexationPayload index data)) =
          (Some (IndexLengthOutOfRange (length index) 1), placeholder ws)" by simp
  from b have b': "64 < length index \<longrightarrow>
        serializePayload c ws (Some (IndexationPayload index data)) =
          (Some (IndexLengthOutOfRange (length index) 64), placeholder ws)" by simp
  show ?thesis by (intro conjI i z n o a' b' g)
qed

lemma demo_forward: "collaborators_forward demo"
  unfolding collaborators_forward_def demo_def
  by (auto intro!: forward_thenW)

theorem serializePayload_failure_after_placeholder_witness:
  "collaborators_forward demo
   \<and> fst (serializePayload demo newWriteStream (Some (IndexationPayload [] None))) \<noteq> None
   \<and> writeIndex newWriteStream + 4 \<le>
       writeIndex (snd (serializePayload demo newWriteStream (Some (IndexationPayload [] None))))
   \<and> serializePayload demo newWriteStream (Some (OtherPayload 9)) =
       (Some (UnknownPayloadType 9), placeholder newWriteStream)
   \<and> serializePayload demo newWriteStream (Some (IndexationPayload [] None)) =
       (Some (IndexLengthOutOfRange 0 1), placeholder newWriteStream)
   \<and> serializePayload demo newWriteStream (Some (IndexationPayload (replicate 65 CHR ''a'') None)) =
       (Some (IndexLengthOutOfRange 65 64), placeholder newWriteStream)"
  using serializePayload_failure_after_placeholder
      [where ws = newWriteStream and c = demo and t = 9 and index = "[]" and data = None
         and object = "Some (IndexationPayload [] None)"]
    serializePayload_failure_after_placeholder
      [where ws = newWriteStream and c = demo and t = 9 and index = "replicate 65 CHR ''a''"
         and data = None and object = "Some (IndexationPayload [] None)"]
    demo_forward
  by simp

subsection \<open>Truncated input\<close>

lemma serializePayload_patch:
  assumes "serializePayload c ws object = (None, ws')"
  shows "\<exists>ws2. serializeVariant c (writeBytes ws (le_bytes 4 0)) object = (None, ws2)
           \<and> ws' = setWriteIndex (writeBytes (setWriteIndex ws2 (writeIndex ws))
                 (le_bytes 4 (writeIndex ws2 - writeIndex ws - 4))) (writeIndex ws2)"
proof -
  obtain r ws2 where v: "serializeVariant c (writeBytes ws (le_bytes 4 0)) object = (r, ws2)"
    by (cases "serializeVariant c (writeBytes ws (le_bytes 4 0)) object")
  have r: "r = None" using assms v
    by (cases r) (simp_all add: serializePayload_unfold writeUInt32_def UINT32_SIZE_def)
  show ?thesis
    using assms v r by (simp add: serializePayload_unfold writeUInt32_def UINT32_SIZE_def)
qed

lemma serializePayload_new_prefix:
  assumes "serializePayload c newWriteStream object = (None, ws')"
  shows "take 4 (w_storage ws') = le_bytes 4 (writeIndex ws' - 4)"
proof -
  from serializePayload_patch [OF assms] obtain ws2 where
    ws': "ws' = setWriteIndex (writeBytes (setWriteIndex ws2 0)
                 (le_bytes 4 (writeIndex ws2 - 4))) (writeIndex ws2)"
    by (auto simp: newWriteStream_def)
  have "take (length (le_bytes 4 (writeIndex ws2 - 4)))
          (drop (writeIndex (setWriteIndex ws2 0))
             (w_storage (writeBytes (setWriteIndex ws2 0) (le_bytes 4 (writeIndex ws2 - 4))))) =
        le_bytes 4 (writeIndex ws2 - 4)"
    by (rule writeBytes_readback)
  then show ?thesis by (simp add: ws' setWriteIndex_def)
qed

lemma deserializePayload_short:
  assumes "\<not> hasRemaining rs 4"
  shows "deserializePayload c rs = Inl (TruncatedInput ''Payload data'' 4 (rs_length rs))"
  using assms
  by (simp add: deserializePayload.simps MIN_PAYLOAD_LENGTH_def TYPE_LENGTH_def UINT32_SIZE_def)

lemma deserializePayload_length_exceeds:
  assumes "hasRemaining rs 4"
    and "L = le_nat (take 4 (drop (readIndex rs) (r_storage rs)))"
    and "\<not> hasRemaining (rs\<lparr>readIndex := readIndex rs + 4\<rparr>) L"
  shows "deserializePayload c rs =
           Inl (TruncatedInput ''Payload length'' L (unused (rs\<lparr>readIndex := readIndex rs + 4\<rparr>)))"
  using assms
  by (simp add: deserializePayload.simps MIN_PAYLOAD_LENGTH_def TYPE_LENGTH_def UINT32_SIZE_def
        readUInt32_def readBytes_def)

text \<open>
  Claim C3. Let a payload value be encoded on a new writer (into fewer than \<open>2 ^ 32\<close>
  body bytes, so that the length field holds the body length). Decoding the first \<open>k\<close>
  bytes of the output, for every \<open>k\<close> below its length, fails with \<open>TruncatedInput\<close>:
  below 4 bytes at the precheck of the envelope, otherwise at the check of the declared
  length, whose error carries the declared length and the number of bytes that remain.
  The last two conjuncts state the two checks for any stream.
\<close>

theorem deserializePayload_truncated:
  assumes ser: "serializePayload c newWriteStream V = (None, ws')"
    and bound: "writeIndex ws' < 2 ^ 32 + 4"
    and k: "k < length (finalBytes ws')"
  shows "deserializePayload c \<lparr>r_storage = take k (finalBytes ws'), readIndex = 0\<rparr> =
           Inl (if k < 4 then TruncatedInput ''Payload data'' 4 k
                else TruncatedInput ''Payload length'' (writeIndex ws' - 4) (k - 4))
         \<and> (\<exists>e. deserializePayload c \<lparr>r_storage = take k (finalBytes ws'), readIndex = 0\<rparr> = Inl e
                  \<and> is_TruncatedInput e)
         \<and> (\<not> hasRemaining rs 4 \<longrightarrow>
                deserializePayload c rs = Inl (TruncatedInput ''Payload data'' 4 (rs_length rs)))
         \<and> (hasRemaining rs 4
              \<and> \<not> hasRemaining (rs\<lparr>readIndex := readIndex rs + 4\<rparr>)
                    (le_nat (take 4 (drop (readIndex rs) (r_storage rs)))) \<longrightarrow>
                deserializePayload c rs =
                  Inl (TruncatedInput ''Payload length''
                         (le_nat (take 4 (drop (readIndex rs) (r_storage rs))))
                         (unused (rs\<lparr>readIndex := readIndex rs + 4\<rparr>))))"
proof -
  let ?rs = "\<lparr>r_storage = take k (finalBytes ws'), readIndex = 0\<rparr>"
  have len: "length (take k (finalBytes ws')) = k" using k by simp
  have kP: "k < writeIndex ws'" using k by (simp add: finalBytes_def)
  have main: "deserializePayload c ?rs =
           Inl (if k < 4 then TruncatedInput ''Payload data'' 4 k
                else TruncatedInput ''Payload length'' (writeIndex ws' - 4) (k - 4))"
  proof (cases "k < 4")
    case True
    then have "\<not> hasRemaining ?rs 4" using k by (simp add: hasRemaining_def)
    from deserializePayload_short [OF this, where c = c] True k show ?thesis
      by (simp add: rs_length_def min_def)
  next
    case False
    then have h: "hasRemaining ?rs 4" using k by (simp add: hasRemaining_def)
    have "take 4 (take k (finalBytes ws')) = take 4 (w_storage ws')"
      using False kP by (simp add: finalBytes_def min_def)
    then have "le_nat (take 4 (drop (readIndex ?rs) (r_storage ?rs))) = (writeIndex ws' - 4) mod 256 ^ 4"
      by (simp add: serializePayload_new_prefix [OF ser] le_nat_le_bytes)
    also have "\<dots> = writeIndex ws' - 4" using bound by simp
    finally have L: "writeIndex ws' - 4 = le_nat (take 4 (drop (readIndex ?rs) (r_storage ?rs)))"
      by simp
    have n: "\<not> hasRemaining (?rs\<lparr>readIndex := readIndex ?rs + 4\<rparr>) (writeIndex ws' - 4)"
      using kP False k by (simp add: hasRemaining_def)
    from deserializePayload_length_exceeds [OF h L n, where c = c] False k show ?thesis
      by (simp add: unused_def min_def)
  qed
  then have ex: "\<exists>e. deserializePayload c ?rs = Inl e \<and> is_TruncatedInput e"
    by (cases "k < 4") simp_all
  have short: "\<not> hasRemaining rs 4 \<longrightarrow>
      deserializePayload c rs = Inl (TruncatedInput ''Payload data'' 4 (rs_length rs))"
    using deserializePayload_short [where c = c and rs = rs] by simp
  have exceeds: "hasRemaining rs 4
      \<and> \<not> hasRemaining (rs\<lparr>readIndex := readIndex rs + 4\<rparr>)
            (le_nat (take 4 (drop (readIndex rs) (r_storage rs)))) \<longrightarrow>
      deserializePayload c rs =
        Inl (TruncatedInput ''Payload length''
               (le_nat (take 4 (drop (readIndex rs) (r_storage rs))))
               (unused (rs\<lparr>readIndex := readIndex rs + 4\<rparr>)))"
    using deserializePayload_length_exceeds [where c = c and rs = rs, OF _ refl] by simp
  show ?thesis by (intro conjI main ex short exceeds)
qed

theorem deserializePayload_truncated_witness:
  "serializePayload demo newWriteStream (Some (IndexationPayload ''A'' None)) =
     (None, \<lparr>w_storage = [11, 0, 0, 0, 2, 0, 0, 0, 1, 0, 65, 0, 0, 0, 0], writeIndex = 15\<rparr>)
   \<and> deserializePayload demo \<lparr>r_storage = [11, 0], readIndex = 0\<rparr> =
       Inl (TruncatedInput ''Payload data'' 4 2)
   \<and> deserializePayload demo \<lparr>r_storage = [11, 0, 0, 0, 2, 0, 0, 0, 1, 0], readIndex = 0\<rparr> =
       Inl (TruncatedInput ''Payload length'' 11 6)"
  using deserializePayload_truncated [OF eval_serialize_indexation_A, of 2]
    deserializePayload_truncated [OF eval_serialize_indexation_A, of 10]
    eval_serialize_indexation_A
  by (simp add: finalBytes_def)

subsection \<open>The embedded payload of a milestone\<close>

text \<open>
  \<open>milestoneFieldsBeforeReceipt\<close> names the reads of \<open>deserializeMilestonePayload\<close> that
  come before the embedded payload (lines 206 to 219), \<open>milestoneSignatures\<close> those
  behind it (lines 226 to 230); \<open>deserializeMilestonePayload_unfold\<close> shows that the
  decoder is these two around the recursive call and its check.
\<close>

definition milestoneFieldsBeforeReceipt ::
  "ReadStream \<Rightarrow> (nat \<times> nat \<times> string \<times> string \<times> string \<times> string list) rresult" where
  "milestoneFieldsBeforeReceipt rs =
     andThen (readUInt32 rs ''payloadMilestone.type'' True) (\<lambda>(type', rs).
     if type' \<noteq> MILESTONE_PAYLOAD_TYPE then Inl (TypeTagMismatch ''payloadMilestone'' type')
     else
       andThen (readUInt32 rs ''payloadMilestone.index'' True) (\<lambda>(index, rs).
       andThen (readUInt64 rs ''payloadMilestone.timestamp'' True) (\<lambda>(timestamp, rs).
       andThen (readFixedHex rs ''payloadMilestone.parent1MessageId'' MESSAGE_ID_LENGTH)
         (\<lambda>(parent1MessageId, rs).
       andThen (readFixedHex rs ''payloadMilestone.parent2MessageId'' MESSAGE_ID_LENGTH)
         (\<lambda>(parent2MessageId, rs).
       andThen (readFixedHex rs ''payloadMilestone.inclusionMerkleProof'' MERKLE_PROOF_LENGTH)
         (\<lambda>(inclusionMerkleProof, rs).
       andThen (readByte rs ''payloadMilestone.publicKeysCount'' True) (\<lambda>(publicKeysCount, rs).
       andThen (readFixedHexes rs ''payloadMilestone.publicKey'' PUBLIC_KEY_SIZE publicKeysCount)
         (\<lambda>(publicKeys, rs).
       Inr ((index, timestamp, parent1MessageId, parent2MessageId, inclusionMerkleProof,
             publicKeys), rs)))))))))"

definition milestoneSignatures :: "ReadStream \<Rightarrow> (string list) rresult" where
  "milestoneSignatures rs =
     andThen (readByte rs ''payloadMilestone.signaturesCount'' True) (\<lambda>(signaturesCount, rs).
     readFixedHexes rs ''payloadMilestone.signature'' SIGNATURE_SIZE signaturesCount)"

lemma andThen_assoc: "andThen (andThen m f) g = andThen m (\<lambda>x. andThen (f x) g)"
  by (cases m) simp_all

lemma andThen_if:
  "andThen (if b then Inl e else m) g = (if b then Inl e else andThen m g)"
  by simp

lemma andThen_Inr_eta: "andThen m (\<lambda>(x, rs). Inr (x, rs)) = m"
  by (cases m) auto

lemma deserializeMilestonePayload_unfold:
  "deserializeMilestonePayload c rs =
     (if \<not> hasRemaining rs MIN_MILESTONE_PAYLOAD_LENGTH then
        Inl (TruncatedInput ''Milestone Payload data'' MIN_MILESTONE_PAYLOAD_LENGTH (rs_length rs))
      else
        andThen (milestoneFieldsBeforeReceipt rs)
          (\<lambda>((index, timestamp, parent1MessageId, parent2MessageId, inclusionMerkleProof,
               publicKeys), rs).
        andThen (deserializePayload c rs) (\<lambda>(receipt, rs).
        if receipt \<noteq> None \<and> payload_type (the receipt) \<noteq> RECEIPT_PAYLOAD_TYPE then
          Inl InvalidNestedPayloadKind
        else
          andThen (milestoneSignatures rs) (\<lambda>(signatures, rs).
          Inr (MilestonePayload index (Number timestamp) parent1MessageId parent2MessageId
                 inclusionMerkleProof publicKeys receipt signatures, rs)))))"
  unfolding deserializeMilestonePayload.simps [of c rs] milestoneFieldsBeforeReceipt_def
    milestoneSignatures_def andThen_assoc
  by (simp add: andThen_assoc andThen_if split_def cong: if_cong)

lemma deserializeTransactionPayload_kind:
  "deserializeTransactionPayload c rs = Inr (p, rs') \<Longrightarrow> \<exists>e u. p = TransactionPayload e u"
  unfolding deserializeTransactionPayload_def
  by (auto elim!: andThen_InrE split: if_splits)

lemma deserializeIndexationPayload_kind:
  "deserializeIndexationPayload rs = Inr (p, rs') \<Longrightarrow> \<exists>i d. p = IndexationPayload i d"
  unfolding deserializeIndexationPayload_def
  by (auto elim!: andThen_InrE split: if_splits)

lemma deserializeReceiptPayload_kind:
  "deserializeReceiptPayload c rs = Inr (p, rs') \<Longrightarrow> \<exists>m f. p = ReceiptPayload m f"
  unfolding deserializeReceiptPayload_def
  by (auto elim!: andThen_InrE split: if_splits)

lemma deserializeMilestonePayload_Inr:
  assumes "deserializeMilestonePayload c rs = Inr (p, rs')"
  shows "\<exists>i t p1 p2 mp pks r sigs h rs1 rs2.
           p = MilestonePayload i t p1 p2 mp pks r sigs
           \<and> milestoneFieldsBeforeReceipt rs = Inr (h, rs1)
           \<and> deserializePayload c rs1 = Inr (r, rs2)
           \<and> (r = None \<or> payload_type (the r) = RECEIPT_PAYLOAD_TYPE)"
  using assms unfolding deserializeMilestonePayload_unfold
  by (auto elim!: andThen_InrE split: if_splits)

lemma deserializePayload_kind:
  assumes "deserializePayload c rs = Inr (Some p, rs')"
  shows "(\<exists>e u. p = TransactionPayload e u) \<or> (\<exists>i t p1 p2 mp pks r sigs. p = MilestonePayload i t p1 p2 mp pks r sigs)
         \<or> (\<exists>i d. p = IndexationPayload i d) \<or> (\<exists>m f. p = ReceiptPayload m f)"
  using assms unfolding deserializePayload.simps [of c rs]
  by (auto elim!: andThen_InrE split: if_splits
        dest!: deserializeTransactionPayload_kind deserializeIndexationPayload_kind
          deserializeReceiptPayload_kind deserializeMilestonePayload_Inr)

lemma deserializePayload_receipt:
  assumes "deserializePayload c rs = Inr (Some p, rs')"
    and "payload_type p = RECEIPT_PAYLOAD_TYPE"
  shows "\<exists>m f. p = ReceiptPayload m f"
  using deserializePayload_kind [OF assms(1)] assms(2)
  by (auto simp: RECEIPT_PAYLOAD_TYPE_def TRANSACTION_PAYLOAD_TYPE_def MILESTONE_PAYLOAD_TYPE_def
        INDEXATION_PAYLOAD_TYPE_def)

text \<open>
  Claim C5. When \<open>deserializeMilestonePayload\<close> succeeds, the embedded payload of its
  result is the one that the envelope decoder returned at the position behind the public
  keys, and it is missing or a receipt payload. When the bytes at that position decode
  to a payload of any other kind, \<open>deserializeMilestonePayload\<close> fails with
  \<open>InvalidNestedPayloadKind\<close>.
\<close>

theorem deserializeMilestonePayload_embedded_receipt:
  "(deserializeMilestonePayload c rs = Inr (MilestonePayload i t p1 p2 mp pks r sigs, rs') \<longrightarrow>
      (r = None \<or> (\<exists>m f. r = Some (ReceiptPayload m f)))
      \<and> (\<exists>h rs1 rs2. milestoneFieldsBeforeReceipt rs = Inr (h, rs1)
             \<and> deserializePayload c rs1 = Inr (r, rs2)))
   \<and> (hasRemaining rs MIN_MILESTONE_PAYLOAD_LENGTH
        \<and> milestoneFieldsBeforeReceipt rs = Inr (h, rs1)
        \<and> deserializePayload c rs1 = Inr (Some p, rs2)
        \<and> (\<forall>m f. p \<noteq> ReceiptPayload m f) \<longrightarrow>
      deserializeMilestonePayload c rs = Inl InvalidNestedPayloadKind)"
proof (intro conjI impI)
  assume a: "deserializeMilestonePayload c rs = Inr (MilestonePayload i t p1 p2 mp pks r sigs, rs')"
  from deserializeMilestonePayload_Inr [OF a] obtain h rs1 rs2 where
    f: "milestoneFieldsBeforeReceipt rs = Inr (h, rs1)"
    and d: "deserializePayload c rs1 = Inr (r, rs2)"
    and k: "r = None \<or> payload_type (the r) = RECEIPT_PAYLOAD_TYPE"
    by auto
  show "r = None \<or> (\<exists>m f. r = Some (ReceiptPayload m f))"
  proof (cases r)
    case None then show ?thesis by simp
  next
    case (Some q)
    with k d deserializePayload_receipt [of c rs1 q rs2] show ?thesis by simp
  qed
  show "\<exists>h rs1 rs2. milestoneFieldsBeforeReceipt rs = Inr (h, rs1)
             \<and> deserializePayload c rs1 = Inr (r, rs2)"
    using f d by blast
next
  assume b: "hasRemaining rs MIN_MILESTONE_PAYLOAD_LENGTH
        \<and> milestoneFieldsBeforeReceipt rs = Inr (h, rs1)
        \<and> deserializePayload c rs1 = Inr (Some p, rs2)
        \<and> (\<forall>m f. p \<noteq> ReceiptPayload m f)"
  then have "payload_type p \<noteq> RECEIPT_PAYLOAD_TYPE"
    using deserializePayload_receipt [of c rs1 p rs2] by blast
  with b show "deserializeMilestonePayload c rs = Inl InvalidNestedPayloadKind"
    unfolding deserializeMilestonePayload_unfold by (simp add: split_def)
qed

subsection \<open>Bytes appended by the writer\<close>

text \<open>
  A writer that stands at the end of its buffer appends. \<open>append_ws ws bs\<close> is the
  writer after the bytes \<open>bs\<close> have been appended; the envelope appends the body length
  and the body.
\<close>

definition at_end :: "WriteStream \<Rightarrow> bool" where
  "at_end ws = (writeIndex ws = length (w_storage ws))"

definition append_ws :: "WriteStream \<Rightarrow> byte list \<Rightarrow> WriteStream" where
  "append_ws ws bs = \<lparr>w_storage = w_storage ws @ bs, writeIndex = length (w_storage ws) + length bs\<rparr>"

lemma at_end_new [simp]: "at_end newWriteStream"
  by (simp add: at_end_def newWriteStream_def)

lemma at_end_append [simp]: "at_end (append_ws ws bs)"
  by (simp add: at_end_def append_ws_def)

lemma append_ws_append [simp]: "append_ws (append_ws ws a) b = append_ws ws (a @ b)"
  by (simp add: append_ws_def)

lemma append_ws_Nil: "at_end ws \<Longrightarrow> append_ws ws [] = ws"
  by (simp add: append_ws_def at_end_def)

lemma writeBytes_at_end: "at_end ws \<Longrightarrow> writeBytes ws bs = append_ws ws bs"
  by (simp add: writeBytes_def append_ws_def at_end_def)

lemma finalBytes_append: "finalBytes (append_ws ws bs) = w_storage ws @ bs"
  by (simp add: finalBytes_def append_ws_def)

lemma write_at_end:
  assumes "at_end ws"
  shows "writeByte ws name v = (None, append_ws ws (le_bytes 1 v))"
    and "writeUInt16 ws name v = (None, append_ws ws (le_bytes 2 v))"
    and "writeUInt32 ws name v = (None, append_ws ws (le_bytes 4 v))"
    and "writeUInt64 ws name v = (None, append_ws ws (le_bytes 8 v))"
    and "writeString ws name s = (None, append_ws ws (le_bytes 2 (length s) @ asciiToBytes s))"
  using assms
  by (simp_all add: writeByte_def writeUInt16_def writeUInt32_def writeUInt64_def writeString_def
        BYTE_SIZE_def UINT16_SIZE_def UINT32_SIZE_def UINT64_SIZE_def writeBytes_at_end)

lemma writeFixedHex_at_end:
  assumes "at_end ws"
  shows "writeFixedHex ws name n s =
           (if \<not> isHex s then (Some (InvalidHex s), ws)
            else if n * 2 \<noteq> length s then (Some (HexLengthMismatch name (length s) (n * 2)), ws)
            else (None, append_ws ws (hexToBytes s)))"
  using assms by (simp add: writeFixedHex_def writeBytes_at_end)

definition hex_ok :: "nat \<Rightarrow> string \<Rightarrow> bool" where
  "hex_ok n s = (isHex s \<and> n * 2 = length s)"

lemma writeFixedHex_None: "fst (writeFixedHex ws name n s) = None \<longleftrightarrow> hex_ok n s"
  by (auto simp: writeFixedHex_def hex_ok_def)

lemma writeFixedHex_ok:
  "at_end ws \<Longrightarrow> hex_ok n s \<Longrightarrow> writeFixedHex ws name n s = (None, append_ws ws (hexToBytes s))"
  by (simp add: writeFixedHex_at_end hex_ok_def)

lemma writeFixedHexes_None:
  "fst (writeFixedHexes ws name n xs) = None \<longleftrightarrow> list_all (hex_ok n) xs"
proof (induction xs arbitrary: ws)
  case Nil show ?case by simp
next
  case (Cons x xs)
  show ?case
  proof (cases "writeFixedHex ws name n x")
    case (Pair r ws1)
    with writeFixedHex_None [of ws name n x] Cons [of ws1] show ?thesis
      by (cases r) auto
  qed
qed

lemma writeFixedHexes_ok:
  "at_end ws \<Longrightarrow> list_all (hex_ok n) xs \<Longrightarrow>
     writeFixedHexes ws name n xs = (None, append_ws ws (concat (map hexToBytes xs)))"
proof (induction xs arbitrary: ws)
  case Nil then show ?case by (simp add: append_ws_Nil)
next
  case (Cons x xs)
  then show ?case by (simp add: writeFixedHex_ok)
qed

lemma thenW_None:
  "fst (thenW r f) = None \<longleftrightarrow> fst r = None \<and> fst (f (snd r)) = None"
  by (cases r; cases "fst r") (auto simp: thenW_def)

lemma serializePayload_at_end:
  assumes e: "at_end ws"
    and v: "serializeVariant c (append_ws ws (le_bytes 4 0)) object =
              (None, append_ws ws (le_bytes 4 0 @ bs))"
  shows "serializePayload c ws object = (None, append_ws ws (le_bytes 4 (length bs) @ bs))"
proof -
  have i: "writeIndex ws = length (w_storage ws)" using e by (simp add: at_end_def)
  have "serializePayload c ws object =
      (None, setWriteIndex
        (snd (writeUInt32 (setWriteIndex (append_ws ws (le_bytes 4 0 @ bs)) (writeIndex ws))
                ''payload.length''
                (writeIndex (append_ws ws (le_bytes 4 0 @ bs)) - writeIndex ws - UINT32_SIZE)))
        (writeIndex (append_ws ws (le_bytes 4 0 @ bs))))"
    by (simp add: serializePayload_unfold write_at_end [OF e] v)
  also have "\<dots> = (None, append_ws ws (le_bytes 4 (length bs) @ bs))"
    by (simp add: setWriteIndex_def writeUInt32_def UINT32_SIZE_def writeBytes_def
          append_ws_def i)
  finally show ?thesis .
qed

subsection \<open>Bytes consumed by the reader\<close>

text \<open>
  \<open>unread rs\<close> are the bytes from the read position on, \<open>skip rs n\<close> is the stream
  \<open>n\<close> bytes further. \<open>decodes f bs v\<close>: on every stream whose unread bytes start with
  \<open>bs\<close>, the reader \<open>f\<close> returns \<open>v\<close> and consumes exactly \<open>bs\<close>.
\<close>

definition unread :: "ReadStream \<Rightarrow> byte list" where
  "unread rs = drop (readIndex rs) (r_storage rs)"

definition skip :: "ReadStream \<Rightarrow> nat \<Rightarrow> ReadStream" where
  "skip rs n = rs\<lparr>readIndex := readIndex rs + n\<rparr>"

definition wf_rs :: "ReadStream \<Rightarrow> bool" where
  "wf_rs rs = (readIndex rs \<le> length (r_storage rs))"

definition decodes :: "(ReadStream \<Rightarrow> 'a rresult) \<Rightarrow> byte list \<Rightarrow> 'a \<Rightarrow> bool" where
  "decodes f bs v =
     (\<forall>rs rest. wf_rs rs \<longrightarrow> unread rs = bs @ rest \<longrightarrow> f rs = Inr (v, skip rs (length bs)))"

lemma decodesD:
  "decodes f bs v \<Longrightarrow> wf_rs rs \<Longrightarrow> unread rs = bs @ rest \<Longrightarrow> f rs = Inr (v, skip rs (length bs))"
  by (simp add: decodes_def)

lemma skip_skip [simp]: "skip (skip rs a) b = skip rs (a + b)"
  by (simp add: skip_def add.assoc)

lemma skip_0 [simp]: "skip rs 0 = rs"
  by (simp add: skip_def)

lemma unread_skip: "unread (skip rs n) = drop n (unread rs)"
  by (simp add: unread_def skip_def add.commute)

lemma wf_skip: "wf_rs rs \<Longrightarrow> n \<le> length (unread rs) \<Longrightarrow> wf_rs (skip rs n)"
  by (auto simp: wf_rs_def unread_def skip_def)

lemma hasRemaining_unread: "wf_rs rs \<Longrightarrow> hasRemaining rs n \<longleftrightarrow> n \<le> length (unread rs)"
  by (auto simp: wf_rs_def unread_def hasRemaining_def)

lemma readBytes_unread:
  "wf_rs rs \<Longrightarrow> n \<le> length (unread rs) \<Longrightarrow>
     readBytes rs name n mv = Inr (take n (unread rs), if mv then skip rs n else rs)"
  by (simp add: readBytes_def hasRemaining_unread unread_def skip_def)

lemma decodes_readBytes: "length bs = n \<Longrightarrow> decodes (\<lambda>rs. readBytes rs name n True) bs bs"
  by (auto simp: decodes_def readBytes_unread)

lemma decodes_return: "decodes (\<lambda>rs. Inr (v, rs)) [] v"
  by (simp add: decodes_def)

lemma decodes_bind:
  assumes f: "decodes f bs1 x" and g: "decodes (g x) bs2 y"
  shows "decodes (\<lambda>rs. andThen (f rs) (\<lambda>(x, rs). g x rs)) (bs1 @ bs2) y"
  unfolding decodes_def
proof (intro allI impI)
  fix rs rest assume w: "wf_rs rs" and u: "unread rs = (bs1 @ bs2) @ rest"
  have 1: "f rs = Inr (x, skip rs (length bs1))"
    using decodesD [OF f w, of "bs2 @ rest"] u by simp
  have w': "wf_rs (skip rs (length bs1))" using w u by (simp add: wf_skip)
  have u': "unread (skip rs (length bs1)) = bs2 @ rest" using u by (simp add: unread_skip)
  show "andThen (f rs) (\<lambda>(x, rs). g x rs) = Inr (y, skip rs (length (bs1 @ bs2)))"
    using decodesD [OF g w' u'] by (simp add: 1)
qed

lemma decodes_map:
  assumes "decodes f bs x"
  shows "decodes (\<lambda>rs. andThen (f rs) (\<lambda>(x, rs). Inr (h x, rs))) bs (h x)"
  using decodes_bind [OF assms decodes_return, of h] by simp

lemma decodes_precheck:
  assumes "n \<le> length bs" and "decodes f bs v"
  shows "decodes (\<lambda>rs. if \<not> hasRemaining rs n then Inl (e rs) else f rs) bs v"
  using assms by (auto simp: decodes_def hasRemaining_unread)

lemma decodes_peek:
  assumes "take 4 bs = le_bytes 4 t" and "4 \<le> length bs" and "t < 2 ^ 32"
    and "decodes (g t) bs y"
  shows "decodes (\<lambda>rs. andThen (readUInt32 rs name False) (\<lambda>(t, rs). g t rs)) bs y"
  unfolding decodes_def
proof (intro allI impI)
  fix rs rest assume w: "wf_rs rs" and u: "unread rs = bs @ rest"
  have "take 4 (unread rs) = le_bytes 4 t" using u assms(1,2) by simp
  moreover have "le_nat (le_bytes 4 t) = t" using assms(3) by (simp add: le_nat_le_bytes)
  ultimately have "readUInt32 rs name False = Inr (t, rs)"
    using w u assms(2) by (simp add: readUInt32_def UINT32_SIZE_def readBytes_unread)
  then show "andThen (readUInt32 rs name False) (\<lambda>(t, rs). g t rs) = Inr (y, skip rs (length bs))"
    using decodesD [OF assms(4) w u] by simp
qed

lemma decodes_le:
  assumes "v < 256 ^ k"
  shows "decodes (\<lambda>rs. andThen (readBytes rs name k True) (\<lambda>(bs, rs'). Inr (le_nat bs, rs')))
           (le_bytes k v) v"
  using decodes_map [OF decodes_readBytes [of "le_bytes k v" k name], of le_nat] assms
  by (simp add: le_nat_le_bytes)

lemma decodes_readUInt:
  "v < 2 ^ 8 \<Longrightarrow> decodes (\<lambda>rs. readByte rs name True) (le_bytes 1 v) v"
  "v < 2 ^ 16 \<Longrightarrow> decodes (\<lambda>rs. readUInt16 rs name True) (le_bytes 2 v) v"
  "v < 2 ^ 32 \<Longrightarrow> decodes (\<lambda>rs. readUInt32 rs name True) (le_bytes 4 v) v"
  "v < 2 ^ 64 \<Longrightarrow> decodes (\<lambda>rs. readUInt64 rs name True) (le_bytes 8 v) v"
  unfolding readByte_def readUInt16_def readUInt32_def readUInt64_def
    BYTE_SIZE_def UINT16_SIZE_def UINT32_SIZE_def UINT64_SIZE_def
  by (rule decodes_le, simp)+

subsection \<open>Hex and ASCII conversion\<close>

lemma hexValue_in_lt: "c \<in> set ds \<Longrightarrow> hexValue_in ds c < length ds"
  by (induction ds) auto

lemma nth_hexValue_in: "c \<in> set ds \<Longrightarrow> ds ! hexValue_in ds c = c"
  by (induction ds) auto

lemma length_hexDigits: "length hexDigits = 16"
  by (simp add: hexDigits_def)

lemma hexValue_lt: "c \<in> set hexDigits \<Longrightarrow> hexValue c < 16"
  using hexValue_in_lt [of c hexDigits] by (simp add: hexValue_def length_hexDigits)

lemma hexDigit_hexValue: "c \<in> set hexDigits \<Longrightarrow> hexDigit (hexValue c) = c"
  using hexValue_lt [of c] nth_hexValue_in [of c hexDigits]
  by (simp add: hexDigit_def hexValue_def)

lemma unat_hex_byte:
  assumes "a < 16" "b < 16"
  shows "unat (of_nat (16 * a + b) :: byte) = 16 * a + b"
proof -
  have "16 * a + b < 256" using assms by simp
  then show ?thesis unfolding unat_of_nat by simp
qed

lemma bytesToHex_hexToBytes: "isHex s \<Longrightarrow> bytesToHex (hexToBytes s) = s"
proof (induction s rule: hexToBytes.induct, goal_cases)
  case (1 a b s)
  then have a: "a \<in> set hexDigits" and b: "b \<in> set hexDigits" and s: "isHex s"
    by (simp_all add: isHex_def)
  have "unat (of_nat (16 * hexValue a + hexValue b) :: byte) = 16 * hexValue a + hexValue b"
    by (rule unat_hex_byte) (simp_all add: hexValue_lt a b)
  moreover have "(16 * hexValue a + hexValue b) div 16 = hexValue a"
    using hexValue_lt [OF b] by simp
  moreover have "(16 * hexValue a + hexValue b) mod 16 = hexValue b"
    using hexValue_lt [OF b] by simp
  ultimately show ?case using 1(1) [OF s] by (simp add: hexDigit_hexValue a b)
next
  case 2
  show ?case by simp
next
  case (3 v)
  then show ?case by (simp add: isHex_def)
qed

lemma length_hexToBytes: "even (length s) \<Longrightarrow> 2 * length (hexToBytes s) = length s"
  by (induction s rule: hexToBytes.induct) simp_all

lemma hex_ok_length: "hex_ok n s \<Longrightarrow> length (hexToBytes s) = n"
  using length_hexToBytes [of s] by (auto simp: hex_ok_def isHex_def)

lemma bytesToAscii_asciiToBytes: "bytesToAscii (asciiToBytes s) = s"
  by (induction s) (simp_all add: bytesToAscii_def asciiToBytes_def unat_of_nat)

lemma length_asciiToBytes [simp]: "length (asciiToBytes s) = length s"
  by (simp add: asciiToBytes_def)

subsection \<open>What the stream reads decode\<close>

lemma decodes_readFixedHex:
  assumes "hex_ok n s"
  shows "decodes (\<lambda>rs. readFixedHex rs name n) (hexToBytes s) s"
proof -
  have "isHex s" using assms by (simp add: hex_ok_def)
  then show ?thesis
    unfolding readFixedHex_def
    using decodes_map [OF decodes_readBytes [OF hex_ok_length [OF assms], of name], of bytesToHex]
    by (simp add: bytesToHex_hexToBytes)
qed

lemma decodes_readFixedHex_empty: "decodes (\<lambda>rs. readFixedHex rs name 0) [] []"
  unfolding readFixedHex_def
  using decodes_map [OF decodes_readBytes [of "[]" 0 name], of bytesToHex] by simp

lemma decodes_readString:
  assumes "length s < 2 ^ 16"
  shows "decodes (\<lambda>rs. readString rs name) (le_bytes 2 (length s) @ asciiToBytes s) s"
  unfolding readString_def
proof (rule decodes_bind [OF decodes_readUInt(2) [OF assms]])
  show "decodes (\<lambda>rs'. andThen (readBytes rs' name (length s) True)
           (\<lambda>(bs, rs''). Inr (bytesToAscii bs, rs''))) (asciiToBytes s) s"
    using decodes_map [OF decodes_readBytes [of "asciiToBytes s" "length s" name], of bytesToAscii]
    by (simp add: bytesToAscii_asciiToBytes)
qed

lemma decodes_readFixedHexes:
  assumes "list_all (hex_ok n) xs"
  shows "decodes (\<lambda>rs. readFixedHexes rs name n (length xs)) (concat (map hexToBytes xs)) xs"
  using assms
proof (induction xs)
  case Nil
  show ?case by (simp add: decodes_return)
next
  case (Cons x xs)
  then have x: "hex_ok n x" and xs: "list_all (hex_ok n) xs" by simp_all
  have "decodes (\<lambda>rs. andThen (readFixedHexes rs name n (length xs)) (\<lambda>(ys, rs). Inr (x # ys, rs)))
          (concat (map hexToBytes xs)) (x # xs)"
    using decodes_map [OF Cons.IH [OF xs], of "(#) x"] by simp
  from decodes_bind [OF decodes_readFixedHex [OF x, of name], of
      "\<lambda>x rs. andThen (readFixedHexes rs name n (length xs)) (\<lambda>(ys, rs). Inr (x # ys, rs))", OF this]
  show ?case by simp
qed

subsection \<open>Round trip of the variants\<close>

lemma decodes_else:
  assumes "\<not> b" and "decodes g bs y"
  shows "decodes (\<lambda>rs. if b then f rs else g rs) bs y"
  using assms by simp

lemma decodes_then:
  assumes "b" and "decodes f bs y"
  shows "decodes (\<lambda>rs. if b then f rs else g rs) bs y"
  using assms by simp

text \<open>
  \<open>data_read\<close> is the data that decoding returns for the data that was encoded: the
  decoder returns a string also when the data was missing. \<open>indexation_bytes\<close> are the
  bytes of an indexation payload.
\<close>

fun data_read :: "string option \<Rightarrow> string" where
  "data_read None = []"
| "data_read (Some s) = s"

definition indexation_bytes :: "string \<Rightarrow> string option \<Rightarrow> byte list" where
  "indexation_bytes index data =
     le_bytes 4 INDEXATION_PAYLOAD_TYPE @ (le_bytes 2 (length index) @ asciiToBytes index)
     @ le_bytes 4 (length (data_read data) div 2) @ hexToBytes (data_read data)"

lemma serializeIndexationPayload_ok:
  assumes e: "at_end ws"
    and s: "fst (serializeIndexationPayload ws (IndexationPayload index data)) = None"
  shows "serializeIndexationPayload ws (IndexationPayload index data) =
           (None, append_ws ws (indexation_bytes index data))"
    and "1 \<le> length index" and "length index \<le> 64"
    and "hex_ok (length (data_read data) div 2) (data_read data)"
proof -
  show i1: "1 \<le> length index" and i2: "length index \<le> 64"
    using s
    by (auto simp: serializeIndexationPayload.simps MIN_INDEXATION_KEY_LENGTH_def
          MAX_INDEXATION_KEY_LENGTH_def Suc_le_eq split: if_splits)
  have i: "\<not> length index < MIN_INDEXATION_KEY_LENGTH" "\<not> length index > MAX_INDEXATION_KEY_LENGTH"
    using i1 i2 by (auto simp: MIN_INDEXATION_KEY_LENGTH_def MAX_INDEXATION_KEY_LENGTH_def)
  show h: "hex_ok (length (data_read data) div 2) (data_read data)"
  proof (cases "truthy data")
    case True
    then obtain d where d: "data = Some d" by (cases data) auto
    from s True show ?thesis
      by (simp add: serializeIndexationPayload.simps i thenW_None write_at_end e
            writeFixedHex_None d)
  next
    case False
    then have "data_read data = []" by (cases data) auto
    then show ?thesis by (simp add: hex_ok_def isHex_def)
  qed
  show "serializeIndexationPayload ws (IndexationPayload index data) =
           (None, append_ws ws (indexation_bytes index data))"
  proof (cases "truthy data")
    case True
    then obtain d where d: "data = Some d" by (cases data) auto
    from h True show ?thesis
      by (simp add: serializeIndexationPayload.simps i write_at_end e writeFixedHex_ok d
            indexation_bytes_def)
  next
    case False
    then have "data_read data = []" by (cases data) auto
    with False show ?thesis
      by (simp add: serializeIndexationPayload.simps i write_at_end e indexation_bytes_def)
  qed
qed

lemma length_indexation_bytes:
  "length (indexation_bytes index data) = 10 + length index + length (hexToBytes (data_read data))"
  by (simp add: indexation_bytes_def)

lemma decodes_deserializeIndexationPayload:
  assumes "length index \<le> 64"
    and h: "hex_ok (length (data_read data) div 2) (data_read data)"
    and b: "length (data_read data) div 2 < 2 ^ 32"
  shows "decodes deserializeIndexationPayload (indexation_bytes index data)
           (IndexationPayload index (Some (data_read data)))"
  unfolding deserializeIndexationPayload_def indexation_bytes_def
  apply (rule decodes_precheck)
   apply (simp add: MIN_INDEXATION_PAYLOAD_LENGTH_def MIN_PAYLOAD_LENGTH_def TYPE_LENGTH_def
      UINT32_SIZE_def STRING_LENGTH_def UINT16_SIZE_def)
  apply (rule decodes_bind [OF decodes_readUInt(3)])
   apply (simp add: INDEXATION_PAYLOAD_TYPE_def)
  apply (rule decodes_else, simp)
  apply (rule decodes_bind [OF decodes_readString])
  using assms(1) apply simp
  apply (rule decodes_bind [OF decodes_readUInt(3) [OF b]])
  apply (rule decodes_map [OF decodes_readFixedHex [OF h]])
  done

text \<open>
  What the payload codec needs from its collaborators for a round trip: a serializer that
  succeeds on a writer at its end appends bytes which the deserializer decodes to the
  value. The transaction decoder peeks the essence type and asks for 8 bytes, the receipt
  decoder asks for \<open>MIN_RECEIPT_PAYLOAD_LENGTH\<close>: the bytes of an essence start with the
  essence type and are at least 4, the bytes of a funds list are at least
  \<open>2 + MIN_MIGRATED_FUNDS_LENGTH\<close>.
\<close>

definition codec_ok ::
  "(WriteStream \<Rightarrow> 'a \<Rightarrow> wresult) \<Rightarrow> (ReadStream \<Rightarrow> 'a rresult) \<Rightarrow> (byte list \<Rightarrow> bool) \<Rightarrow> bool" where
  "codec_ok ser de P =
     (\<forall>ws v. at_end ws \<longrightarrow> fst (ser ws v) = None \<longrightarrow>
        (\<exists>bs. ser ws v = (None, append_ws ws bs) \<and> P bs \<and> decodes de bs v))"

definition collaborators_ok :: "('e, 'u, 'f) collaborators \<Rightarrow> bool" where
  "collaborators_ok c =
     (codec_ok (serializeTransactionEssence c) (deserializeTransactionEssence c)
        (\<lambda>bs. 4 \<le> length bs \<and> take 1 bs = le_bytes 1 (TRANSACTION_ESSENCE_TYPE c)
              \<and> TRANSACTION_ESSENCE_TYPE c < 2 ^ 8)
      \<and> codec_ok (serializeUnlockBlocks c) (deserializeUnlockBlocks c) (\<lambda>bs. True)
      \<and> codec_ok (serializeFunds c) (deserializeFunds c)
          (\<lambda>bs. 2 + MIN_MIGRATED_FUNDS_LENGTH c \<le> length bs))"

lemma codec_okD:
  assumes "codec_ok ser de P" "at_end ws" "fst (ser ws v) = None"
  obtains bs where "ser ws v = (None, append_ws ws bs)" "P bs" "decodes de bs v"
  using assms unfolding codec_ok_def by blast

lemma decodes_peek_byte:
  assumes "take 1 bs = le_bytes 1 t" and "1 \<le> length bs" and "t < 2 ^ 8"
    and "decodes (g t) bs y"
  shows "decodes (\<lambda>rs. andThen (readByte rs name False) (\<lambda>(t, rs). g t rs)) bs y"
  unfolding decodes_def
proof (intro allI impI)
  fix rs rest assume w: "wf_rs rs" and u: "unread rs = bs @ rest"
  have "take 1 (unread rs) = le_bytes 1 t" using u assms(1,2) by simp
  moreover have "le_nat (le_bytes 1 t) = t" using assms(3) by (subst le_nat_le_bytes) simp
  ultimately have "readByte rs name False = Inr (t, rs)"
    using w u assms(2) by (simp add: readByte_def BYTE_SIZE_def readBytes_unread)
  then show "andThen (readByte rs name False) (\<lambda>(t, rs). g t rs) = Inr (y, skip rs (length bs))"
    using decodesD [OF assms(4) w u] by simp
qed

lemma transaction_roundtrip:
  assumes c: "collaborators_ok c" and e: "at_end ws"
    and s: "fst (serializeTransactionPayload c ws (TransactionPayload essence unlockBlocks)) = None"
  shows "\<exists>bs. serializeTransactionPayload c ws (TransactionPayload essence unlockBlocks) =
                (None, append_ws ws (le_bytes 4 TRANSACTION_PAYLOAD_TYPE @ bs))
              \<and> decodes (deserializeTransactionPayload c) (le_bytes 4 TRANSACTION_PAYLOAD_TYPE @ bs)
                   (TransactionPayload essence unlockBlocks)"
proof -
  let ?ws1 = "append_ws ws (le_bytes 4 TRANSACTION_PAYLOAD_TYPE)"
  from s have s1: "fst (serializeTransactionEssence c ?ws1 essence) = None"
    by (simp add: serializeTransactionPayload.simps write_at_end e thenW_None)
  from c have ce: "codec_ok (serializeTransactionEssence c) (deserializeTransactionEssence c)
        (\<lambda>bs. 4 \<le> length bs \<and> take 1 bs = le_bytes 1 (TRANSACTION_ESSENCE_TYPE c)
              \<and> TRANSACTION_ESSENCE_TYPE c < 2 ^ 8)"
    and cu: "codec_ok (serializeUnlockBlocks c) (deserializeUnlockBlocks c) (\<lambda>bs. True)"
    by (simp_all add: collaborators_ok_def)
  from codec_okD [OF ce at_end_append s1] obtain be where
    be: "serializeTransactionEssence c ?ws1 essence =
           (None, append_ws ws (le_bytes 4 TRANSACTION_PAYLOAD_TYPE @ be))"
    and pe: "4 \<le> length be" "take 1 be = le_bytes 1 (TRANSACTION_ESSENCE_TYPE c)"
      "TRANSACTION_ESSENCE_TYPE c < 2 ^ 8"
    and de: "decodes (deserializeTransactionEssence c) be essence"
    by auto
  let ?ws2 = "append_ws ws (le_bytes 4 TRANSACTION_PAYLOAD_TYPE @ be)"
  from s have s2: "fst (serializeUnlockBlocks c ?ws2 unlockBlocks) = None"
    by (simp add: serializeTransactionPayload.simps write_at_end e thenW_None be)
  from codec_okD [OF cu at_end_append s2] obtain bu where
    bu: "serializeUnlockBlocks c ?ws2 unlockBlocks =
           (None, append_ws ws (le_bytes 4 TRANSACTION_PAYLOAD_TYPE @ be @ bu))"
    and du: "decodes (deserializeUnlockBlocks c) bu unlockBlocks"
    by auto
  have w: "serializeTransactionPayload c ws (TransactionPayload essence unlockBlocks) =
             (None, append_ws ws (le_bytes 4 TRANSACTION_PAYLOAD_TYPE @ be @ bu))"
    by (simp add: serializeTransactionPayload.simps write_at_end e be bu)
  have "decodes (deserializeTransactionPayload c) (le_bytes 4 TRANSACTION_PAYLOAD_TYPE @ be @ bu)
          (TransactionPayload essence unlockBlocks)"
    unfolding deserializeTransactionPayload_def
    apply (rule decodes_precheck)
    using pe(1) apply (simp add: MIN_TRANSACTION_PAYLOAD_LENGTH_def MIN_PAYLOAD_LENGTH_def
        TYPE_LENGTH_def UINT32_SIZE_def)
    apply (rule decodes_bind [OF decodes_readUInt(3)])
     apply (simp add: TRANSACTION_PAYLOAD_TYPE_def)
    apply (rule decodes_else, simp)
    apply (rule decodes_peek_byte [where t = "TRANSACTION_ESSENCE_TYPE c"])
    using pe apply simp
    using pe apply simp
    using pe apply simp
    apply (rule decodes_then, simp)
    apply (rule decodes_bind [OF de])
    apply (rule decodes_map [OF du])
    done
  with w show ?thesis by blast
qed

lemma receipt_roundtrip:
  assumes c: "collaborators_ok c" and e: "at_end ws"
    and s: "fst (serializeReceiptPayload c ws (ReceiptPayload migratedAt funds)) = None"
    and m: "migratedAt < 2 ^ 32"
  shows "\<exists>bs. serializeReceiptPayload c ws (ReceiptPayload migratedAt funds) =
                (None, append_ws ws (le_bytes 4 RECEIPT_PAYLOAD_TYPE @ bs))
              \<and> decodes (deserializeReceiptPayload c) (le_bytes 4 RECEIPT_PAYLOAD_TYPE @ bs)
                   (ReceiptPayload migratedAt funds)"
proof -
  let ?ws1 = "append_ws ws (le_bytes 4 RECEIPT_PAYLOAD_TYPE @ le_bytes 4 migratedAt)"
  from s have s1: "fst (serializeFunds c ?ws1 funds) = None"
    by (simp add: serializeReceiptPayload.simps write_at_end e thenW_None)
  from c have cf: "codec_ok (serializeFunds c) (deserializeFunds c)
          (\<lambda>bs. 2 + MIN_MIGRATED_FUNDS_LENGTH c \<le> length bs)"
    by (simp add: collaborators_ok_def)
  from codec_okD [OF cf at_end_append s1] obtain bf where
    bf: "serializeFunds c ?ws1 funds =
           (None, append_ws ws (le_bytes 4 RECEIPT_PAYLOAD_TYPE @ le_bytes 4 migratedAt @ bf))"
    and pf: "2 + MIN_MIGRATED_FUNDS_LENGTH c \<le> length bf"
    and df: "decodes (deserializeFunds c) bf funds"
    by auto
  have w: "serializeReceiptPayload c ws (ReceiptPayload migratedAt funds) =
             (None, append_ws ws (le_bytes 4 RECEIPT_PAYLOAD_TYPE @ le_bytes 4 migratedAt @ bf))"
    by (simp add: serializeReceiptPayload.simps write_at_end e bf)
  have "decodes (deserializeReceiptPayload c)
          (le_bytes 4 RECEIPT_PAYLOAD_TYPE @ le_bytes 4 migratedAt @ bf)
          (ReceiptPayload migratedAt funds)"
    unfolding deserializeReceiptPayload_def
    apply (rule decodes_precheck)
    using pf apply (simp add: MIN_RECEIPT_PAYLOAD_LENGTH_def MIN_PAYLOAD_LENGTH_def
        TYPE_LENGTH_def UINT32_SIZE_def UINT16_SIZE_def)
    apply (rule decodes_bind [OF decodes_readUInt(3)])
     apply (simp add: RECEIPT_PAYLOAD_TYPE_def)
    apply (rule decodes_else, simp)
    apply (rule decodes_bind [OF decodes_readUInt(3) [OF m]])
    apply (rule decodes_map [OF df])
    done
  with w show ?thesis by blast
qed

subsection \<open>The envelope on the read side\<close>

text \<open>
  \<open>deserializeVariant\<close> names the dispatch of \<open>deserializePayload\<close> on the peeked type tag
  (lines 94 to 106); \<open>deserializePayload_unfold\<close> shows that the envelope decoder is the
  two checks and this dispatch. The declared length does not reach the dispatch.
\<close>

definition deserializeVariant ::
  "('e, 'u, 'f) collaborators \<Rightarrow> ReadStream \<Rightarrow> (('e, 'u, 'f) payload option) rresult" where
  "deserializeVariant c rs =
     andThen (readUInt32 rs ''payload.type'' False) (\<lambda>(payloadType, rs).
     if payloadType = TRANSACTION_PAYLOAD_TYPE then
       andThen (deserializeTransactionPayload c rs) (\<lambda>(payload, rs). Inr (Some payload, rs))
     else if payloadType = MILESTONE_PAYLOAD_TYPE then
       andThen (deserializeMilestonePayload c rs) (\<lambda>(payload, rs). Inr (Some payload, rs))
     else if payloadType = INDEXATION_PAYLOAD_TYPE then
       andThen (deserializeIndexationPayload rs) (\<lambda>(payload, rs). Inr (Some payload, rs))
     else if payloadType = RECEIPT_PAYLOAD_TYPE then
       andThen (deserializeReceiptPayload c rs) (\<lambda>(payload, rs). Inr (Some payload, rs))
     else Inl (UnknownPayloadType payloadType))"

lemma deserializePayload_unfold:
  "deserializePayload c rs =
     (if \<not> hasRemaining rs MIN_PAYLOAD_LENGTH then
        Inl (TruncatedInput ''Payload data'' MIN_PAYLOAD_LENGTH (rs_length rs))
      else
        andThen (readUInt32 rs ''payload.length'' True) (\<lambda>(payloadLength, rs).
        if \<not> hasRemaining rs payloadLength then
          Inl (TruncatedInput ''Payload length'' payloadLength (unused rs))
        else if payloadLength > 0 then deserializeVariant c rs
        else Inr (None, rs)))"
  unfolding deserializePayload.simps [of c rs] deserializeVariant_def by (rule refl)

lemma decodes_cong: "(\<And>rs. f rs = g rs) \<Longrightarrow> decodes g bs v \<Longrightarrow> decodes f bs v"
  by (simp add: decodes_def)

lemma decodes_envelope_None: "decodes (deserializePayload c) (le_bytes 4 0) None"
  apply (rule decodes_cong [OF deserializePayload_unfold])
  apply (rule decodes_precheck)
   apply (simp add: MIN_PAYLOAD_LENGTH_def TYPE_LENGTH_def UINT32_SIZE_def)
  apply (rule decodes_bind [OF decodes_readUInt(3), where ?bs2.0 = "[]", simplified])
   apply simp
  apply (simp add: decodes_def hasRemaining_unread)
  done

lemma decodes_envelope:
  assumes v: "decodes (deserializeVariant c) body v"
    and l: "0 < length body" "length body < 2 ^ 32"
  shows "decodes (deserializePayload c) (le_bytes 4 (length body) @ body) v"
  apply (rule decodes_cong [OF deserializePayload_unfold])
  apply (rule decodes_precheck)
   apply (simp add: MIN_PAYLOAD_LENGTH_def TYPE_LENGTH_def UINT32_SIZE_def)
  apply (rule decodes_bind [OF decodes_readUInt(3) [OF l(2)]])
  apply (rule decodes_precheck, simp)
  apply (rule decodes_then [OF l(1)])
  apply (rule decodes_cong [OF refl v])
  done

definition variant_decoder ::
  "('e, 'u, 'f) collaborators \<Rightarrow> nat \<Rightarrow> ReadStream \<Rightarrow> (('e, 'u, 'f) payload) rresult" where
  "variant_decoder c t =
     (if t = TRANSACTION_PAYLOAD_TYPE then deserializeTransactionPayload c
      else if t = MILESTONE_PAYLOAD_TYPE then deserializeMilestonePayload c
      else if t = INDEXATION_PAYLOAD_TYPE then deserializeIndexationPayload
      else deserializeReceiptPayload c)"

lemma decodes_deserializeVariant:
  assumes d: "decodes (variant_decoder c t) (le_bytes 4 t @ body) p"
    and t: "t \<le> RECEIPT_PAYLOAD_TYPE"
  shows "decodes (deserializeVariant c) (le_bytes 4 t @ body) (Some p)"
proof -
  have t32: "t < 2 ^ 32" using t by (simp add: RECEIPT_PAYLOAD_TYPE_def)
  have cases: "t = TRANSACTION_PAYLOAD_TYPE \<or> t = MILESTONE_PAYLOAD_TYPE
      \<or> t = INDEXATION_PAYLOAD_TYPE \<or> t = RECEIPT_PAYLOAD_TYPE"
    using t by (auto simp: RECEIPT_PAYLOAD_TYPE_def TRANSACTION_PAYLOAD_TYPE_def
        MILESTONE_PAYLOAD_TYPE_def INDEXATION_PAYLOAD_TYPE_def)
  have "decodes (\<lambda>rs.
     if t = TRANSACTION_PAYLOAD_TYPE then
       andThen (deserializeTransactionPayload c rs) (\<lambda>(payload, rs). Inr (Some payload, rs))
     else if t = MILESTONE_PAYLOAD_TYPE then
       andThen (deserializeMilestonePayload c rs) (\<lambda>(payload, rs). Inr (Some payload, rs))
     else if t = INDEXATION_PAYLOAD_TYPE then
       andThen (deserializeIndexationPayload rs) (\<lambda>(payload, rs). Inr (Some payload, rs))
     else if t = RECEIPT_PAYLOAD_TYPE then
       andThen (deserializeReceiptPayload c rs) (\<lambda>(payload, rs). Inr (Some payload, rs))
     else Inl (UnknownPayloadType t)) (le_bytes 4 t @ body) (Some p)"
    using cases decodes_map [OF d, of Some]
    by (auto simp: variant_decoder_def RECEIPT_PAYLOAD_TYPE_def TRANSACTION_PAYLOAD_TYPE_def
        MILESTONE_PAYLOAD_TYPE_def INDEXATION_PAYLOAD_TYPE_def)
  then show ?thesis
    unfolding deserializeVariant_def
    by (rule decodes_peek [where t = t, rotated 3]) (use t32 in simp_all)
qed

subsection \<open>Round trip of a milestone\<close>

lemma fst_write [simp]:
  "fst (writeByte ws name v) = None"
  "fst (writeUInt16 ws name v) = None"
  "fst (writeUInt32 ws name v) = None"
  "fst (writeUInt64 ws name v) = None"
  by (simp_all add: writeByte_def writeUInt16_def writeUInt32_def writeUInt64_def)

lemma length_concat_hexToBytes:
  "list_all (hex_ok n) xs \<Longrightarrow> length (concat (map hexToBytes xs)) = n * length xs"
  by (induction xs) (simp_all add: hex_ok_length)

lemma envelope_roundtrip_None:
  assumes "at_end ws"
  shows "serializePayload c ws None = (None, append_ws ws (le_bytes 4 0))"
  using serializePayload_at_end [OF assms, of c None "[]"] assms
  by (simp add: serializeVariant_def)

lemma serializePayload_None_variant:
  assumes "at_end ws" and "fst (serializePayload c ws object) = None"
  shows "fst (serializeVariant c (append_ws ws (le_bytes 4 0)) object) = None"
  using assms by (simp add: serializePayload_unfold thenW_None write_at_end)

lemma envelope_roundtrip_receipt:
  assumes c: "collaborators_ok c" and e: "at_end ws"
    and s: "fst (serializePayload c ws (Some (ReceiptPayload m f))) = None"
    and m: "m < 2 ^ 32"
  shows "\<exists>body. serializePayload c ws (Some (ReceiptPayload m f)) =
                  (None, append_ws ws (le_bytes 4 (length body) @ body))
               \<and> 0 < length body
               \<and> (length body < 2 ^ 32 \<longrightarrow>
                    decodes (deserializePayload c) (le_bytes 4 (length body) @ body)
                      (Some (ReceiptPayload m f)))"
proof -
  let ?ws1 = "append_ws ws (le_bytes 4 0)"
  have "fst (serializeReceiptPayload c ?ws1 (ReceiptPayload m f)) = None"
    using serializePayload_None_variant [OF e s] by (simp add: serializeVariant_def)
  from receipt_roundtrip [OF c at_end_append this m] obtain bs where
    w: "serializeReceiptPayload c ?ws1 (ReceiptPayload m f) =
          (None, append_ws ws (le_bytes 4 0 @ le_bytes 4 RECEIPT_PAYLOAD_TYPE @ bs))"
    and d: "decodes (deserializeReceiptPayload c) (le_bytes 4 RECEIPT_PAYLOAD_TYPE @ bs)
              (ReceiptPayload m f)"
    by auto
  let ?body = "le_bytes 4 RECEIPT_PAYLOAD_TYPE @ bs"
  have 1: "serializePayload c ws (Some (ReceiptPayload m f)) =
            (None, append_ws ws (le_bytes 4 (length ?body) @ ?body))"
    by (rule serializePayload_at_end [OF e]) (simp add: serializeVariant_def w)
  have "decodes (deserializeVariant c) ?body (Some (ReceiptPayload m f))"
    by (rule decodes_deserializeVariant)
      (use d in \<open>simp_all add: variant_decoder_def RECEIPT_PAYLOAD_TYPE_def
         TRANSACTION_PAYLOAD_TYPE_def MILESTONE_PAYLOAD_TYPE_def INDEXATION_PAYLOAD_TYPE_def\<close>)
  then have "length ?body < 2 ^ 32 \<longrightarrow>
      decodes (deserializePayload c) (le_bytes 4 (length ?body) @ ?body) (Some (ReceiptPayload m f))"
    using decodes_envelope [of c ?body] by simp
  with 1 show ?thesis by (intro exI [of _ ?body]) simp
qed

definition embedded_ok :: "('e, 'u, 'f) payload option \<Rightarrow> bool" where
  "embedded_ok r = (case r of None \<Rightarrow> True | Some (ReceiptPayload m f) \<Rightarrow> m < 2 ^ 32 | _ \<Rightarrow> False)"

lemma embedded_roundtrip:
  assumes c: "collaborators_ok c" and e: "at_end ws"
    and s: "fst (serializePayload c ws r) = None"
    and r: "embedded_ok r"
  shows "\<exists>br. serializePayload c ws r = (None, append_ws ws br)
             \<and> (length br < 2 ^ 32 \<longrightarrow> decodes (deserializePayload c) br r)"
proof (cases r)
  case None
  show ?thesis unfolding None
    using envelope_roundtrip_None [OF e, of c] decodes_envelope_None [of c] by blast
next
  case (Some p)
  with r obtain m f where p: "p = ReceiptPayload m f" and m: "m < 2 ^ 32"
    by (cases p) (simp_all add: embedded_ok_def)
  from envelope_roundtrip_receipt [OF c e s [unfolded Some p] m] obtain body where
    1: "serializePayload c ws (Some (ReceiptPayload m f)) =
          (None, append_ws ws (le_bytes 4 (length body) @ body))"
    and 2: "length body < 2 ^ 32 \<longrightarrow>
        decodes (deserializePayload c) (le_bytes 4 (length body) @ body) (Some (ReceiptPayload m f))"
    by blast
  show ?thesis unfolding Some p
    by (rule exI [of _ "le_bytes 4 (length body) @ body"]) (use 1 2 in simp)
qed

lemma milestone_roundtrip:
  assumes c: "collaborators_ok c" and e: "at_end ws"
    and s: "fst (serializeMilestonePayload c ws
              (MilestonePayload index timestamp p1 p2 mp pks r sigs)) = None"
    and i: "index < 2 ^ 32" and t: "timestamp < 2 ^ 64"
    and k: "pks \<noteq> []" "length pks < 2 ^ 8" and g: "sigs \<noteq> []" "length sigs < 2 ^ 8"
    and r: "embedded_ok r"
  shows "\<exists>bs. serializeMilestonePayload c ws (MilestonePayload index timestamp p1 p2 mp pks r sigs) =
                (None, append_ws ws (le_bytes 4 MILESTONE_PAYLOAD_TYPE @ bs))
              \<and> (length bs < 2 ^ 32 \<longrightarrow>
                   decodes (deserializeMilestonePayload c) (le_bytes 4 MILESTONE_PAYLOAD_TYPE @ bs)
                     (MilestonePayload index (Number timestamp) p1 p2 mp pks r sigs))"
proof -
  let ?pre = "le_bytes 4 MILESTONE_PAYLOAD_TYPE @ le_bytes 4 index @ le_bytes 8 timestamp
      @ hexToBytes p1 @ hexToBytes p2 @ hexToBytes mp @ le_bytes 1 (length pks)
      @ concat (map hexToBytes pks)"
  have h: "hex_ok MESSAGE_ID_LENGTH p1" "hex_ok MESSAGE_ID_LENGTH p2" "hex_ok MERKLE_PROOF_LENGTH mp"
      "list_all (hex_ok PUBLIC_KEY_SIZE) pks"
    and sr: "fst (serializePayload c (append_ws ws ?pre) r) = None"
    using s
    by (simp_all add: serializeMilestonePayload.simps thenW_None write_at_end e
        writeFixedHex_None writeFixedHex_ok writeFixedHexes_None writeFixedHexes_ok
        cong: conj_cong)
  from embedded_roundtrip [OF c at_end_append sr r] obtain br where
    br: "serializePayload c (append_ws ws ?pre) r = (None, append_ws ws (?pre @ br))"
    and dr: "length br < 2 ^ 32 \<longrightarrow> decodes (deserializePayload c) br r"
    by auto
  have hs: "list_all (hex_ok SIGNATURE_SIZE) sigs"
    using s h
    by (simp add: serializeMilestonePayload.simps thenW_None write_at_end e
        writeFixedHex_ok writeFixedHexes_None writeFixedHexes_ok br [simplified])
  let ?bs = "le_bytes 4 index @ le_bytes 8 timestamp
      @ hexToBytes p1 @ hexToBytes p2 @ hexToBytes mp @ le_bytes 1 (length pks)
      @ concat (map hexToBytes pks) @ br @ le_bytes 1 (length sigs) @ concat (map hexToBytes sigs)"
  have w: "serializeMilestonePayload c ws (MilestonePayload index timestamp p1 p2 mp pks r sigs) =
                (None, append_ws ws (le_bytes 4 MILESTONE_PAYLOAD_TYPE @ ?bs))"
    using h hs
    by (simp add: serializeMilestonePayload.simps write_at_end e
        writeFixedHex_ok writeFixedHexes_ok br [simplified])
  have len: "MIN_MILESTONE_PAYLOAD_LENGTH \<le> length (le_bytes 4 MILESTONE_PAYLOAD_TYPE @ ?bs)"
  proof -
    have "PUBLIC_KEY_SIZE \<le> PUBLIC_KEY_SIZE * length pks" using k(1) by (cases pks) simp_all
    moreover have "SIGNATURE_SIZE \<le> SIGNATURE_SIZE * length sigs"
      using g(1) by (cases sigs) simp_all
    moreover have "length (le_bytes 4 MILESTONE_PAYLOAD_TYPE @ ?bs) =
        4 + 4 + 8 + MESSAGE_ID_LENGTH + MESSAGE_ID_LENGTH + MERKLE_PROOF_LENGTH + 1
        + PUBLIC_KEY_SIZE * length pks + length br + 1 + SIGNATURE_SIZE * length sigs"
      using h hs by (simp add: hex_ok_length length_concat_hexToBytes)
    ultimately show ?thesis
      unfolding MIN_MILESTONE_PAYLOAD_LENGTH_def MIN_PAYLOAD_LENGTH_def TYPE_LENGTH_def
        UINT32_SIZE_def UINT64_SIZE_def BYTE_SIZE_def
      by linarith
  qed
  have "decodes (deserializeMilestonePayload c) (le_bytes 4 MILESTONE_PAYLOAD_TYPE @ ?bs)
          (MilestonePayload index (Number timestamp) p1 p2 mp pks r sigs)" if b: "length ?bs < 2 ^ 32"
  proof -
    have "length br < 2 ^ 32" using b by simp
    with dr have dr': "decodes (deserializePayload c) br r" by simp
    have nr: "\<not> (r \<noteq> None \<and> payload_type (the r) \<noteq> RECEIPT_PAYLOAD_TYPE)"
      using r by (auto simp: embedded_ok_def split: option.splits payload.splits)
    show ?thesis
      apply (rule decodes_cong [OF deserializeMilestonePayload.simps])
      apply (rule decodes_precheck [OF len])
      apply (rule decodes_bind [OF decodes_readUInt(3)])
       apply (simp add: MILESTONE_PAYLOAD_TYPE_def)
      apply (rule decodes_else, simp)
      apply (rule decodes_bind [OF decodes_readUInt(3) [OF i]])
      apply (rule decodes_bind [OF decodes_readUInt(4) [OF t]])
      apply (rule decodes_bind [OF decodes_readFixedHex [OF h(1)]])
      apply (rule decodes_bind [OF decodes_readFixedHex [OF h(2)]])
      apply (rule decodes_bind [OF decodes_readFixedHex [OF h(3)]])
      apply (rule decodes_bind [OF decodes_readUInt(1) [OF k(2)]])
      apply (rule decodes_bind [OF decodes_readFixedHexes [OF h(4)]])
      apply (rule decodes_bind [OF dr'])
      apply (rule decodes_else [OF nr])
      apply (rule decodes_bind [OF decodes_readUInt(1) [OF g(2)]])
      apply (rule decodes_map [OF decodes_readFixedHexes [OF hs]])
      done
  qed
  with w show ?thesis by blast
qed

subsection \<open>Round trip through the envelope\<close>

text \<open>
  The payload values of the round trip. A milestone has an index of 32 bits, a timestamp
  of 64 bits that is a number (\<open>Number\<close> keeps it), between 1 and 255 public keys and
  signatures, and no embedded payload or a receipt; a receipt has a \<open>migratedAt\<close> of 32
  bits. Everything else a value needs, the writer checks: the index length, the hex
  strings and what the collaborators ask of their values.
\<close>

fun valid_payload :: "('e, 'u, 'f) payload option \<Rightarrow> bool" where
  "valid_payload None = True"
| "valid_payload (Some (TransactionPayload e u)) = True"
| "valid_payload (Some (MilestonePayload index timestamp p1 p2 mp pks r sigs)) =
     (index < 2 ^ 32 \<and> timestamp < 2 ^ 64 \<and> Number timestamp = timestamp
      \<and> pks \<noteq> [] \<and> length pks < 2 ^ 8 \<and> sigs \<noteq> [] \<and> length sigs < 2 ^ 8
      \<and> embedded_ok r)"
| "valid_payload (Some (IndexationPayload index data)) = True"
| "valid_payload (Some (ReceiptPayload migratedAt funds)) = (migratedAt < 2 ^ 32)"
| "valid_payload (Some (OtherPayload t)) = False"

text \<open>What decoding returns for an encoded value: the value, with missing data read as empty.\<close>

fun decoded :: "('e, 'u, 'f) payload \<Rightarrow> ('e, 'u, 'f) payload" where
  "decoded (IndexationPayload index data) = IndexationPayload index (Some (data_read data))"
| "decoded p = p"

lemma envelope_roundtrip:
  assumes e: "at_end ws"
    and w: "serializeVariant c (append_ws ws (le_bytes 4 0)) (Some p) =
              (None, append_ws ws (le_bytes 4 0 @ le_bytes 4 t @ bs))"
    and d: "length bs < 2 ^ 32 \<longrightarrow> decodes (variant_decoder c t) (le_bytes 4 t @ bs) p'"
    and t: "t \<le> RECEIPT_PAYLOAD_TYPE"
  shows "\<exists>body. serializePayload c ws (Some p) = (None, append_ws ws body)
           \<and> (length body < 2 ^ 32 + 4 \<longrightarrow> decodes (deserializePayload c) body (Some p'))"
proof -
  let ?body = "le_bytes 4 t @ bs"
  have 1: "serializePayload c ws (Some p) = (None, append_ws ws (le_bytes 4 (length ?body) @ ?body))"
    by (rule serializePayload_at_end [OF e w])
  have "decodes (deserializePayload c) (le_bytes 4 (length ?body) @ ?body) (Some p')"
    if "length (le_bytes 4 (length ?body) @ ?body) < 2 ^ 32 + 4"
  proof -
    from that have l: "length ?body < 2 ^ 32" by simp
    then have "decodes (variant_decoder c t) ?body p'" using d by simp
    from decodes_deserializeVariant [OF this t] l show ?thesis
      by (intro decodes_envelope) simp_all
  qed
  with 1 show ?thesis by blast
qed

lemma payload_roundtrip:
  assumes c: "collaborators_ok c" and e: "at_end ws"
    and v: "valid_payload V"
    and s: "fst (serializePayload c ws V) = None"
  shows "\<exists>body. serializePayload c ws V = (None, append_ws ws body)
           \<and> (length body < 2 ^ 32 + 4 \<longrightarrow>
                decodes (deserializePayload c) body (map_option decoded V))"
proof (cases V)
  case None
  show ?thesis unfolding None
    using envelope_roundtrip_None [OF e, of c] decodes_envelope_None [of c] by auto
next
  case (Some p)
  let ?ws1 = "append_ws ws (le_bytes 4 0)"
  have sv: "fst (serializeVariant c ?ws1 (Some p)) = None"
    using serializePayload_None_variant [OF e s] Some by simp
  show ?thesis
  proof (cases p)
    case (TransactionPayload es u)
    from sv have "fst (serializeTransactionPayload c ?ws1 (TransactionPayload es u)) = None"
      by (simp add: serializeVariant_def TransactionPayload)
    from transaction_roundtrip [OF c at_end_append this] obtain bs where
      "serializeVariant c ?ws1 (Some p) =
         (None, append_ws ws (le_bytes 4 0 @ le_bytes 4 TRANSACTION_PAYLOAD_TYPE @ bs))"
      "decodes (variant_decoder c TRANSACTION_PAYLOAD_TYPE) (le_bytes 4 TRANSACTION_PAYLOAD_TYPE @ bs) p"
      by (auto simp: serializeVariant_def TransactionPayload variant_decoder_def)
    from envelope_roundtrip [OF e this(1), of p] this(2) show ?thesis
      by (simp add: Some TransactionPayload RECEIPT_PAYLOAD_TYPE_def TRANSACTION_PAYLOAD_TYPE_def)
  next
    case (MilestonePayload i ts p1 p2 mp pks r sigs)
    from sv have sm: "fst (serializeMilestonePayload c ?ws1
        (MilestonePayload i ts p1 p2 mp pks r sigs)) = None"
      by (simp add: serializeVariant_def MilestonePayload)
    from v have vs: "i < 2 ^ 32" "ts < 2 ^ 64" "Number ts = ts" "pks \<noteq> []" "length pks < 2 ^ 8"
        "sigs \<noteq> []" "length sigs < 2 ^ 8" "embedded_ok r"
      by (simp_all add: Some MilestonePayload)
    from milestone_roundtrip [OF c at_end_append sm vs(1,2,4,5,6,7,8)] obtain bs where
      "serializeVariant c ?ws1 (Some p) =
         (None, append_ws ws (le_bytes 4 0 @ le_bytes 4 MILESTONE_PAYLOAD_TYPE @ bs))"
      "length bs < 2 ^ 32 \<longrightarrow>
         decodes (variant_decoder c MILESTONE_PAYLOAD_TYPE) (le_bytes 4 MILESTONE_PAYLOAD_TYPE @ bs) p"
      by (auto simp: serializeVariant_def MilestonePayload variant_decoder_def vs(3)
          MILESTONE_PAYLOAD_TYPE_def TRANSACTION_PAYLOAD_TYPE_def)
    from envelope_roundtrip [OF e this(1), of p] this(2) show ?thesis
      by (simp add: Some MilestonePayload RECEIPT_PAYLOAD_TYPE_def MILESTONE_PAYLOAD_TYPE_def)
  next
    case (IndexationPayload i d)
    from sv have si: "fst (serializeIndexationPayload ?ws1
        (IndexationPayload i d :: ('a, 'b, 'c) payload)) = None"
      by (simp add: serializeVariant_def IndexationPayload)
    note ok = serializeIndexationPayload_ok [OF at_end_append si]
    let ?bs = "(le_bytes 2 (length i) @ asciiToBytes i)
       @ le_bytes 4 (length (data_read d) div 2) @ hexToBytes (data_read d)"
    have 1: "serializeVariant c ?ws1 (Some p) =
         (None, append_ws ws (le_bytes 4 0 @ le_bytes 4 INDEXATION_PAYLOAD_TYPE @ ?bs))"
      using ok(1) by (simp add: serializeVariant_def IndexationPayload indexation_bytes_def)
    have 2: "decodes (variant_decoder c INDEXATION_PAYLOAD_TYPE)
        (le_bytes 4 INDEXATION_PAYLOAD_TYPE @ ?bs) (decoded p)" if "length ?bs < 2 ^ 32"
    proof -
      have "length (data_read d) div 2 = length (hexToBytes (data_read d))"
        using hex_ok_length [OF ok(4)] by simp
      with that have "length (data_read d) div 2 < 2 ^ 32" by simp
      from decodes_deserializeIndexationPayload [OF ok(3,4) this, where ?'a = 'a and ?'b = 'b and ?'c = 'c]
      show ?thesis
        by (simp add: variant_decoder_def IndexationPayload indexation_bytes_def
            INDEXATION_PAYLOAD_TYPE_def MILESTONE_PAYLOAD_TYPE_def TRANSACTION_PAYLOAD_TYPE_def)
    qed
    from envelope_roundtrip [OF e 1, of "decoded p"] 2 show ?thesis
      by (simp add: Some IndexationPayload RECEIPT_PAYLOAD_TYPE_def INDEXATION_PAYLOAD_TYPE_def)
  next
    case (ReceiptPayload m f)
    from sv have "fst (serializeReceiptPayload c ?ws1 (ReceiptPayload m f)) = None"
      by (simp add: serializeVariant_def ReceiptPayload)
    moreover from v have "m < 2 ^ 32" by (simp add: Some ReceiptPayload)
    ultimately obtain bs where
      "serializeVariant c ?ws1 (Some p) =
         (None, append_ws ws (le_bytes 4 0 @ le_bytes 4 RECEIPT_PAYLOAD_TYPE @ bs))"
      "decodes (variant_decoder c RECEIPT_PAYLOAD_TYPE) (le_bytes 4 RECEIPT_PAYLOAD_TYPE @ bs) p"
      using receipt_roundtrip [OF c at_end_append, where migratedAt = m and funds = f]
      by (auto simp: serializeVariant_def ReceiptPayload variant_decoder_def
          RECEIPT_PAYLOAD_TYPE_def MILESTONE_PAYLOAD_TYPE_def TRANSACTION_PAYLOAD_TYPE_def
          INDEXATION_PAYLOAD_TYPE_def)
    from envelope_roundtrip [OF e this(1), of p] this(2) show ?thesis
      by (simp add: Some ReceiptPayload)
  next
    case (OtherPayload t)
    with v Some show ?thesis by simp
  qed
qed

subsection \<open>The instance of the collaborators keeps its contract\<close>

lemma demo_sel:
  "TRANSACTION_ESSENCE_TYPE demo = 0" "MIN_MIGRATED_FUNDS_LENGTH demo = 8"
  "serializeTransactionEssence demo = (\<lambda>ws e.
        thenW (writeByte ws ''essence.type'' 0) (\<lambda>ws. writeUInt32 ws ''essence.value'' (unat e)))"
  "deserializeTransactionEssence demo = (\<lambda>rs.
        andThen (readByte rs ''essence.type'' True) (\<lambda>(t, rs).
        andThen (readUInt32 rs ''essence.value'' True) (\<lambda>(e, rs). Inr (of_nat e, rs))))"
  "serializeUnlockBlocks demo = (\<lambda>ws u. writeUInt16 ws ''unlockBlocks.count'' (unat u))"
  "deserializeUnlockBlocks demo = (\<lambda>rs.
        andThen (readUInt16 rs ''unlockBlocks.count'' True) (\<lambda>(u, rs). Inr (of_nat u, rs)))"
  "serializeFunds demo = (\<lambda>ws f.
        thenW (writeUInt16 ws ''funds.count'' 1) (\<lambda>ws. writeUInt64 ws ''funds.amount'' (unat f)))"
  "deserializeFunds demo = (\<lambda>rs.
        andThen (readUInt16 rs ''funds.count'' True) (\<lambda>(n, rs).
        andThen (readUInt64 rs ''funds.amount'' True) (\<lambda>(f, rs). Inr (of_nat f, rs))))"
  unfolding demo_def by (simp_all only: collaborators.select_convs)

lemma of_nat_unat_decodes:
  "decodes f bs (of_nat (unat e) :: 'a :: len word) \<Longrightarrow> decodes f bs e"
  by simp

lemma demo_essence: "decodes (deserializeTransactionEssence demo) (le_bytes 1 0 @ le_bytes 4 (unat e)) e"
proof -
  have "unat e < 2 ^ 32" using unsigned_less [of e] by simp
  show ?thesis unfolding demo_sel
    apply (rule of_nat_unat_decodes)
    apply (rule decodes_bind [OF decodes_readUInt(1)], simp)
    apply (rule decodes_map [OF decodes_readUInt(3)])
    apply fact
    done
qed

lemma demo_unlock: "decodes (deserializeUnlockBlocks demo) (le_bytes 2 (unat u)) u"
proof -
  have "unat u < 2 ^ 16" using unsigned_less [of u] by simp
  show ?thesis unfolding demo_sel
    apply (rule of_nat_unat_decodes)
    apply (rule decodes_map [OF decodes_readUInt(2)])
    apply fact
    done
qed

lemma demo_funds: "decodes (deserializeFunds demo) (le_bytes 2 1 @ le_bytes 8 (unat f)) f"
proof -
  have "unat f < 2 ^ 64" using unsigned_less [of f] by simp
  show ?thesis unfolding demo_sel
    apply (rule of_nat_unat_decodes)
    apply (rule decodes_bind [OF decodes_readUInt(2)], simp)
    apply (rule decodes_map [OF decodes_readUInt(4)])
    apply fact
    done
qed

lemma demo_ok: "collaborators_ok demo"
proof -
  have a: "serializeTransactionEssence demo ws e =
      (None, append_ws ws (le_bytes 1 0 @ le_bytes 4 (unat e)))" if "at_end ws" for ws e
    using that unfolding demo_sel by (simp add: write_at_end)
  have b: "serializeUnlockBlocks demo ws u = (None, append_ws ws (le_bytes 2 (unat u)))"
    if "at_end ws" for ws u
    using that unfolding demo_sel by (simp add: write_at_end)
  have d: "serializeFunds demo ws f = (None, append_ws ws (le_bytes 2 1 @ le_bytes 8 (unat f)))"
    if "at_end ws" for ws f
    using that unfolding demo_sel by (simp add: write_at_end)
  show ?thesis
    unfolding collaborators_ok_def codec_ok_def
  proof (intro conjI allI impI)
    fix ws e assume "at_end ws"
    from a [OF this, of e] demo_essence [of e]
    show "\<exists>bs. serializeTransactionEssence demo ws e = (None, append_ws ws bs)
        \<and> (4 \<le> length bs \<and> take 1 bs = le_bytes 1 (TRANSACTION_ESSENCE_TYPE demo)
             \<and> TRANSACTION_ESSENCE_TYPE demo < 2 ^ 8)
        \<and> decodes (deserializeTransactionEssence demo) bs e"
      by (intro exI [of _ "le_bytes 1 0 @ le_bytes 4 (unat e)"]) (simp add: demo_sel(1))
  next
    fix ws u assume "at_end ws"
    from b [OF this, of u] demo_unlock [of u]
    show "\<exists>bs. serializeUnlockBlocks demo ws u = (None, append_ws ws bs)
        \<and> True \<and> decodes (deserializeUnlockBlocks demo) bs u"
      by (intro exI [of _ "le_bytes 2 (unat u)"]) simp
  next
    fix ws f assume "at_end ws"
    from d [OF this, of f] demo_funds [of f]
    show "\<exists>bs. serializeFunds demo ws f = (None, append_ws ws bs)
        \<and> 2 + MIN_MIGRATED_FUNDS_LENGTH demo \<le> length bs
        \<and> decodes (deserializeFunds demo) bs f"
      by (intro exI [of _ "le_bytes 2 1 @ le_bytes 8 (unat f)"]) (simp add: demo_sel(2))
  qed
qed

subsection \<open>Round trip from a new writer\<close>

lemma decoded_eq:
  "map_option decoded V = V \<longleftrightarrow> (\<forall>index. V \<noteq> Some (IndexationPayload index None))"
proof (cases V)
  case None then show ?thesis by simp
next
  case (Some p)
  show ?thesis
  proof (cases p)
    case (IndexationPayload i d)
    then show ?thesis using Some by (cases d) simp_all
  qed (simp_all add: Some)
qed

text \<open>
  Claim C1 (as amended). Let the collaborators decode what they encode, let \<open>V\<close> be the
  missing payload or a valid payload of one of the four kinds, and let \<open>serializePayload\<close>
  succeed on a new writer with fewer than \<open>2 ^ 32 + 4\<close> bytes. Then \<open>deserializePayload\<close>
  on these bytes consumes them all and returns \<open>V\<close>, in which missing indexation data has
  become the empty string. The result is \<open>V\<close> itself exactly when \<open>V\<close> is not an
  indexation payload without data. This covers the missing payload, an index of length 1
  or 64, indexation data of length 0, and a milestone with one public key, one signature
  and no receipt.
\<close>

theorem deserializePayload_serializePayload:
  assumes c: "collaborators_ok c" and v: "valid_payload V"
    and s: "serializePayload c newWriteStream V = (None, ws)"
    and l: "length (finalBytes ws) < 2 ^ 32 + 4"
  shows "deserializePayload c \<lparr>r_storage = finalBytes ws, readIndex = 0\<rparr> =
           Inr (map_option decoded V,
                \<lparr>r_storage = finalBytes ws, readIndex = length (finalBytes ws)\<rparr>)
         \<and> (map_option decoded V = V
              \<longleftrightarrow> (\<forall>index. V \<noteq> Some (IndexationPayload index None)))"
proof -
  from s have "fst (serializePayload c newWriteStream V) = None" by simp
  from payload_roundtrip [OF c at_end_new v this] obtain body where
    w: "serializePayload c newWriteStream V = (None, append_ws newWriteStream body)"
    and d: "length body < 2 ^ 32 + 4 \<longrightarrow> decodes (deserializePayload c) body (map_option decoded V)"
    by blast
  from s w have ws: "ws = append_ws newWriteStream body" by simp
  have f: "finalBytes ws = body" by (simp add: ws finalBytes_append newWriteStream_def)
  with l d have "decodes (deserializePayload c) body (map_option decoded V)" by simp
  from decodesD [OF this, of "\<lparr>r_storage = body, readIndex = 0\<rparr>" "[]"]
  have "deserializePayload c \<lparr>r_storage = body, readIndex = 0\<rparr> =
      Inr (map_option decoded V, \<lparr>r_storage = body, readIndex = length body\<rparr>)"
    by (simp add: wf_rs_def unread_def skip_def)
  then show ?thesis unfolding f decoded_eq by simp
qed

lemma eval_serialize_transaction:
  "serializePayload demo newWriteStream (Some (TransactionPayload 7 3)) =
     (None, \<lparr>w_storage = [11, 0, 0, 0, 0, 0, 0, 0, 0, 7, 0, 0, 0, 3, 0], writeIndex = 15\<rparr>)"
  by code_simp

theorem deserializePayload_serializePayload_witness:
  "collaborators_ok demo \<and> valid_payload (Some (TransactionPayload 7 3 :: (32 word, 16 word, 64 word) payload))
   \<and> serializePayload demo newWriteStream (Some (TransactionPayload 7 3)) =
       (None, \<lparr>w_storage = [11, 0, 0, 0, 0, 0, 0, 0, 0, 7, 0, 0, 0, 3, 0], writeIndex = 15\<rparr>)
   \<and> deserializePayload demo
       \<lparr>r_storage = [11, 0, 0, 0, 0, 0, 0, 0, 0, 7, 0, 0, 0, 3, 0], readIndex = 0\<rparr> =
       Inr (Some (TransactionPayload 7 3),
            \<lparr>r_storage = [11, 0, 0, 0, 0, 0, 0, 0, 0, 7, 0, 0, 0, 3, 0], readIndex = 15\<rparr>)"
  using deserializePayload_serializePayload [OF demo_ok _ eval_serialize_transaction]
  by (simp add: demo_ok eval_serialize_transaction finalBytes_def)

text \<open>
  The claim as stated asks for \<open>V\<close> in every case. An indexation payload without data is
  valid and is encoded, and decoding its bytes returns a payload with data.
\<close>

lemma eval_serialize_indexation_B:
  "serializePayload demo newWriteStream (Some (IndexationPayload ''B'' None)) =
     (None, \<lparr>w_storage = [11, 0, 0, 0, 2, 0, 0, 0, 1, 0, 66, 0, 0, 0, 0], writeIndex = 15\<rparr>)"
  by code_simp

lemma eval_deserialize_indexation_B:
  "deserializePayload demo \<lparr>r_storage = [11, 0, 0, 0, 2, 0, 0, 0, 1, 0, 66, 0, 0, 0, 0], readIndex = 0\<rparr> =
       Inr (Some (IndexationPayload ''B'' (Some [])),
            \<lparr>r_storage = [11, 0, 0, 0, 2, 0, 0, 0, 1, 0, 66, 0, 0, 0, 0], readIndex = 15\<rparr>)"
  by code_simp

theorem roundtrip_absent_data_counterexample:
  "collaborators_ok demo
   \<and> valid_payload (Some (IndexationPayload ''B'' None :: (32 word, 16 word, 64 word) payload))
   \<and> serializePayload demo newWriteStream (Some (IndexationPayload ''B'' None)) =
       (None, \<lparr>w_storage = [11, 0, 0, 0, 2, 0, 0, 0, 1, 0, 66, 0, 0, 0, 0], writeIndex = 15\<rparr>)
   \<and> deserializePayload demo
       \<lparr>r_storage = [11, 0, 0, 0, 2, 0, 0, 0, 1, 0, 66, 0, 0, 0, 0], readIndex = 0\<rparr> =
       Inr (Some (IndexationPayload ''B'' (Some [])),
            \<lparr>r_storage = [11, 0, 0, 0, 2, 0, 0, 0, 1, 0, 66, 0, 0, 0, 0], readIndex = 15\<rparr>)
   \<and> Some (IndexationPayload ''B'' (Some []) :: (32 word, 16 word, 64 word) payload)
       \<noteq> Some (IndexationPayload ''B'' None)"
  by (simp add: demo_ok eval_serialize_indexation_B eval_deserialize_indexation_B)

subsection \<open>Decoding a milestone from its parts\<close>

text \<open>
  A milestone is decoded from the bytes of the fields before the embedded payload, the
  bytes of the embedded payload and the bytes of the signatures.
\<close>

lemma decodes_milestoneFieldsBeforeReceipt:
  assumes i: "index < 2 ^ 32" and t: "timestamp < 2 ^ 64"
    and h: "hex_ok MESSAGE_ID_LENGTH p1" "hex_ok MESSAGE_ID_LENGTH p2" "hex_ok MERKLE_PROOF_LENGTH mp"
      "list_all (hex_ok PUBLIC_KEY_SIZE) pks"
    and k: "length pks < 2 ^ 8"
  shows "decodes milestoneFieldsBeforeReceipt
           (le_bytes 4 MILESTONE_PAYLOAD_TYPE @ le_bytes 4 index @ le_bytes 8 timestamp
            @ hexToBytes p1 @ hexToBytes p2 @ hexToBytes mp @ le_bytes 1 (length pks)
            @ concat (map hexToBytes pks))
           (index, timestamp, p1, p2, mp, pks)"
  unfolding milestoneFieldsBeforeReceipt_def
  apply (rule decodes_bind [OF decodes_readUInt(3)])
   apply (simp add: MILESTONE_PAYLOAD_TYPE_def)
  apply (rule decodes_else, simp)
  apply (rule decodes_bind [OF decodes_readUInt(3) [OF i]])
  apply (rule decodes_bind [OF decodes_readUInt(4) [OF t]])
  apply (rule decodes_bind [OF decodes_readFixedHex [OF h(1)]])
  apply (rule decodes_bind [OF decodes_readFixedHex [OF h(2)]])
  apply (rule decodes_bind [OF decodes_readFixedHex [OF h(3)]])
  apply (rule decodes_bind [OF decodes_readUInt(1) [OF k]])
  apply (rule decodes_map [OF decodes_readFixedHexes [OF h(4)]])
  done

lemma decodes_milestoneSignatures:
  assumes "list_all (hex_ok SIGNATURE_SIZE) sigs" and "length sigs < 2 ^ 8"
  shows "decodes milestoneSignatures (le_bytes 1 (length sigs) @ concat (map hexToBytes sigs)) sigs"
  unfolding milestoneSignatures_def
  apply (rule decodes_bind [OF decodes_readUInt(1) [OF assms(2)]])
  apply (rule decodes_readFixedHexes [OF assms(1)])
  done

lemma decodes_deserializeMilestonePayload:
  assumes f: "decodes milestoneFieldsBeforeReceipt pre (index, timestamp, p1, p2, mp, pks)"
    and r: "decodes (deserializePayload c) br r"
    and k: "\<not> (r \<noteq> None \<and> payload_type (the r) \<noteq> RECEIPT_PAYLOAD_TYPE)"
    and s: "decodes milestoneSignatures sg sigs"
    and l: "MIN_MILESTONE_PAYLOAD_LENGTH \<le> length (pre @ br @ sg)"
  shows "decodes (deserializeMilestonePayload c) (pre @ br @ sg)
           (MilestonePayload index (Number timestamp) p1 p2 mp pks r sigs)"
  apply (rule decodes_cong [OF deserializeMilestonePayload_unfold])
  apply (rule decodes_precheck [OF l])
  apply (rule decodes_bind [OF f])
  apply (simp only: prod.case)
  apply (rule decodes_bind [OF r])
  apply (rule decodes_else [OF k])
  apply (rule decodes_map [OF s])
  done

subsection \<open>A milestone around a receipt and around a transaction\<close>

text \<open>
  Two milestones built by hand, with index 5, timestamp 2, parents, proof, one public key
  and one signature of zero bytes. The first embeds the receipt payload
  \<open>ReceiptPayload 9 4\<close>, the second the transaction payload \<open>TransactionPayload 7 3\<close>, both
  as the instance of the collaborators encodes them.
\<close>

lemma isHex_zeros: "even n \<Longrightarrow> isHex (replicate n CHR ''0'')"
  by (auto simp: isHex_def list_all_iff hexDigits_def)

lemma hexToBytes_zeros: "hexToBytes (replicate (2 * n) CHR ''0'') = replicate n 0"
  by (induction n) (simp_all add: hexValue_def hexDigits_def)

lemma hex_ok_zeros: "hex_ok n (replicate (2 * n) CHR ''0'')"
  by (simp add: hex_ok_def isHex_zeros)

lemma zeros_32:
  "hex_ok MESSAGE_ID_LENGTH (replicate 64 CHR ''0'')"
  "hex_ok MERKLE_PROOF_LENGTH (replicate 64 CHR ''0'')"
  "hex_ok PUBLIC_KEY_SIZE (replicate 64 CHR ''0'')"
  "hexToBytes (replicate 64 CHR ''0'') = replicate 32 0"
  using hex_ok_zeros [of 32] hexToBytes_zeros [of 32]
  by (simp_all add: MESSAGE_ID_LENGTH_def MERKLE_PROOF_LENGTH_def PUBLIC_KEY_SIZE_def)

lemma zeros_64:
  "hex_ok SIGNATURE_SIZE (replicate 128 CHR ''0'')"
  "hexToBytes (replicate 128 CHR ''0'') = replicate 64 0"
  using hex_ok_zeros [of 64] hexToBytes_zeros [of 64]
  by (simp_all add: SIGNATURE_SIZE_def)

lemma le_bytes_eval:
  "le_bytes 4 MILESTONE_PAYLOAD_TYPE = [1, 0, 0, 0]"
  "le_bytes 4 5 = [5, 0, 0, 0]"
  "le_bytes 8 2 = [2, 0, 0, 0, 0, 0, 0, 0]"
  "le_bytes 1 1 = [1]"
  by code_simp+

lemma example_fields:
  "decodes milestoneFieldsBeforeReceipt
     ([1, 0, 0, 0, 5, 0, 0, 0, 2, 0, 0, 0, 0, 0, 0, 0] @ replicate 96 0 @ [1] @ replicate 32 0)
     (5, 2, replicate 64 CHR ''0'', replicate 64 CHR ''0'', replicate 64 CHR ''0'',
      [replicate 64 CHR ''0''])"
proof -
  have "(replicate 96 0 :: byte list) = replicate 32 0 @ replicate 32 0 @ replicate 32 0"
    by (simp add: replicate_add [symmetric])
  with decodes_milestoneFieldsBeforeReceipt [of 5 2, OF _ _ zeros_32(1) zeros_32(1) zeros_32(2),
      of "[replicate 64 CHR ''0'']"]
  show ?thesis by (simp add: zeros_32 le_bytes_eval)
qed

lemma example_signatures:
  "decodes milestoneSignatures ([1] @ replicate 64 0) [replicate 128 CHR ''0'']"
  using decodes_milestoneSignatures [of "[replicate 128 CHR ''0'']"]
  by (simp add: zeros_64 le_bytes_eval)

lemma decodes_serialized:
  assumes c: "collaborators_ok c" and v: "valid_payload V"
    and s: "serializePayload c newWriteStream V = (None, \<lparr>w_storage = bs, writeIndex = n\<rparr>)"
    and l: "length bs < 2 ^ 32 + 4"
  shows "decodes (deserializePayload c) bs (map_option decoded V)"
proof -
  from s have "fst (serializePayload c newWriteStream V) = None" by simp
  from payload_roundtrip [OF c at_end_new v this] obtain body where
    w: "serializePayload c newWriteStream V = (None, append_ws newWriteStream body)"
    and d: "length body < 2 ^ 32 + 4 \<longrightarrow> decodes (deserializePayload c) body (map_option decoded V)"
    by blast
  from s w have "body = bs" by (simp add: append_ws_def newWriteStream_def)
  with d l show ?thesis by simp
qed

lemma eval_serialize_receipt:
  "serializePayload demo newWriteStream (Some (ReceiptPayload 9 4)) =
     (None, \<lparr>w_storage = [18, 0, 0, 0, 3, 0, 0, 0, 9, 0, 0, 0, 1, 0, 4, 0, 0, 0, 0, 0, 0, 0],
             writeIndex = 22\<rparr>)"
  by code_simp

lemma example_receipt:
  "decodes (deserializePayload demo)
     [18, 0, 0, 0, 3, 0, 0, 0, 9, 0, 0, 0, 1, 0, 4, 0, 0, 0, 0, 0, 0, 0]
     (Some (ReceiptPayload 9 4))"
  using decodes_serialized [OF demo_ok _ eval_serialize_receipt] by simp

lemma example_transaction:
  "decodes (deserializePayload demo) [11, 0, 0, 0, 0, 0, 0, 0, 0, 7, 0, 0, 0, 3, 0]
     (Some (TransactionPayload 7 3))"
  using decodes_serialized [OF demo_ok _ eval_serialize_transaction] by simp

lemma decodes_at_0:
  assumes "decodes f bs v" and "n = length bs"
  shows "f \<lparr>r_storage = bs @ rest, readIndex = 0\<rparr> = Inr (v, \<lparr>r_storage = bs @ rest, readIndex = n\<rparr>)"
  using decodesD [OF assms(1), of "\<lparr>r_storage = bs @ rest, readIndex = 0\<rparr>" rest] assms(2)
  by (simp add: wf_rs_def unread_def skip_def)

lemma decodes_at:
  assumes "decodes f bs v" and "k = length pre" and "n = length pre + length bs"
  shows "f \<lparr>r_storage = pre @ bs @ rest, readIndex = k\<rparr> =
           Inr (v, \<lparr>r_storage = pre @ bs @ rest, readIndex = n\<rparr>)"
  using decodesD [OF assms(1), of "\<lparr>r_storage = pre @ bs @ rest, readIndex = k\<rparr>" rest] assms(2,3)
  by (simp add: wf_rs_def unread_def skip_def)

theorem deserializeMilestonePayload_embedded_receipt_witness:
  "deserializeMilestonePayload demo
     \<lparr>r_storage = ([1, 0, 0, 0, 5, 0, 0, 0, 2, 0, 0, 0, 0, 0, 0, 0] @ replicate 96 0 @ [1] @ replicate 32 0)
        @ [18, 0, 0, 0, 3, 0, 0, 0, 9, 0, 0, 0, 1, 0, 4, 0, 0, 0, 0, 0, 0, 0]
        @ [1] @ replicate 64 0, readIndex = 0\<rparr> =
     Inr (MilestonePayload 5 2 (replicate 64 CHR ''0'') (replicate 64 CHR ''0'')
            (replicate 64 CHR ''0'') [replicate 64 CHR ''0''] (Some (ReceiptPayload 9 4))
            [replicate 128 CHR ''0''],
          \<lparr>r_storage = ([1, 0, 0, 0, 5, 0, 0, 0, 2, 0, 0, 0, 0, 0, 0, 0] @ replicate 96 0 @ [1] @ replicate 32 0)
        @ [18, 0, 0, 0, 3, 0, 0, 0, 9, 0, 0, 0, 1, 0, 4, 0, 0, 0, 0, 0, 0, 0]
        @ [1] @ replicate 64 0, readIndex = 232\<rparr>)
   \<and> (\<exists>h rs1 rs2. milestoneFieldsBeforeReceipt
         \<lparr>r_storage = ([1, 0, 0, 0, 5, 0, 0, 0, 2, 0, 0, 0, 0, 0, 0, 0] @ replicate 96 0 @ [1] @ replicate 32 0)
        @ [18, 0, 0, 0, 3, 0, 0, 0, 9, 0, 0, 0, 1, 0, 4, 0, 0, 0, 0, 0, 0, 0]
        @ [1] @ replicate 64 0, readIndex = 0\<rparr> = Inr (h, rs1)
        \<and> deserializePayload demo rs1 = Inr (Some (ReceiptPayload 9 4), rs2))
   \<and> milestoneFieldsBeforeReceipt
        \<lparr>r_storage = ([1, 0, 0, 0, 5, 0, 0, 0, 2, 0, 0, 0, 0, 0, 0, 0] @ replicate 96 0 @ [1] @ replicate 32 0)
           @ [11, 0, 0, 0, 0, 0, 0, 0, 0, 7, 0, 0, 0, 3, 0]
           @ [1] @ replicate 64 0, readIndex = 0\<rparr> =
       Inr ((5, 2, replicate 64 CHR ''0'', replicate 64 CHR ''0'', replicate 64 CHR ''0'',
             [replicate 64 CHR ''0'']),
        \<lparr>r_storage = ([1, 0, 0, 0, 5, 0, 0, 0, 2, 0, 0, 0, 0, 0, 0, 0] @ replicate 96 0 @ [1] @ replicate 32 0)
           @ [11, 0, 0, 0, 0, 0, 0, 0, 0, 7, 0, 0, 0, 3, 0]
           @ [1] @ replicate 64 0, readIndex = 145\<rparr>)
   \<and> deserializePayload demo
        \<lparr>r_storage = ([1, 0, 0, 0, 5, 0, 0, 0, 2, 0, 0, 0, 0, 0, 0, 0] @ replicate 96 0 @ [1] @ replicate 32 0)
           @ [11, 0, 0, 0, 0, 0, 0, 0, 0, 7, 0, 0, 0, 3, 0]
           @ [1] @ replicate 64 0, readIndex = 145\<rparr> =
       Inr (Some (TransactionPayload 7 3),
        \<lparr>r_storage = ([1, 0, 0, 0, 5, 0, 0, 0, 2, 0, 0, 0, 0, 0, 0, 0] @ replicate 96 0 @ [1] @ replicate 32 0)
           @ [11, 0, 0, 0, 0, 0, 0, 0, 0, 7, 0, 0, 0, 3, 0]
           @ [1] @ replicate 64 0, readIndex = 160\<rparr>)
   \<and> deserializeMilestonePayload demo
        \<lparr>r_storage = ([1, 0, 0, 0, 5, 0, 0, 0, 2, 0, 0, 0, 0, 0, 0, 0] @ replicate 96 0 @ [1] @ replicate 32 0)
           @ [11, 0, 0, 0, 0, 0, 0, 0, 0, 7, 0, 0, 0, 3, 0]
           @ [1] @ replicate 64 0, readIndex = 0\<rparr> =
       Inl InvalidNestedPayloadKind"
proof -
  let ?P = "[1, 0, 0, 0, 5, 0, 0, 0, 2, 0, 0, 0, 0, 0, 0, 0] @ replicate 96 0 @ [1] @ replicate 32 (0 :: byte)"
  let ?R = "[18, 0, 0, 0, 3, 0, 0, 0, 9, 0, 0, 0, 1, 0, 4, 0, 0, 0, 0, 0, 0, 0] :: byte list"
  let ?T = "[11, 0, 0, 0, 0, 0, 0, 0, 0, 7, 0, 0, 0, 3, 0] :: byte list"
  let ?S = "[1] @ replicate 64 (0 :: byte)"
  let ?Z = "replicate 64 CHR ''0''"
  have n: "Number 2 = 2" by (simp add: Number_def)
  have m: "MIN_MILESTONE_PAYLOAD_LENGTH = 210"
    by (simp add: MIN_MILESTONE_PAYLOAD_LENGTH_def MIN_PAYLOAD_LENGTH_def TYPE_LENGTH_def
        UINT32_SIZE_def UINT64_SIZE_def MESSAGE_ID_LENGTH_def MERKLE_PROOF_LENGTH_def BYTE_SIZE_def
        PUBLIC_KEY_SIZE_def SIGNATURE_SIZE_def)
  have "decodes (deserializeMilestonePayload demo) (?P @ ?R @ ?S)
      (MilestonePayload 5 (Number 2) ?Z ?Z ?Z [?Z] (Some (ReceiptPayload 9 4)) [replicate 128 CHR ''0''])"
    by (rule decodes_deserializeMilestonePayload [OF example_fields example_receipt _ example_signatures])
      (simp_all add: m RECEIPT_PAYLOAD_TYPE_def)
  from decodes_at_0 [OF this, of 232 "[]"]
  have a: "deserializeMilestonePayload demo \<lparr>r_storage = ?P @ ?R @ ?S, readIndex = 0\<rparr> =
      Inr (MilestonePayload 5 2 ?Z ?Z ?Z [?Z] (Some (ReceiptPayload 9 4)) [replicate 128 CHR ''0''],
           \<lparr>r_storage = ?P @ ?R @ ?S, readIndex = 232\<rparr>)"
    by (simp add: n)
  have f: "milestoneFieldsBeforeReceipt \<lparr>r_storage = ?P @ ?T @ ?S, readIndex = 0\<rparr> =
      Inr ((5, 2, ?Z, ?Z, ?Z, [?Z]), \<lparr>r_storage = ?P @ ?T @ ?S, readIndex = 145\<rparr>)"
    by (rule decodes_at_0 [OF example_fields]) simp
  have t: "deserializePayload demo \<lparr>r_storage = ?P @ ?T @ ?S, readIndex = 145\<rparr> =
      Inr (Some (TransactionPayload 7 3), \<lparr>r_storage = ?P @ ?T @ ?S, readIndex = 160\<rparr>)"
    by (rule decodes_at [OF example_transaction]) simp_all
  have h: "hasRemaining \<lparr>r_storage = ?P @ ?T @ ?S, readIndex = 0\<rparr> MIN_MILESTONE_PAYLOAD_LENGTH"
    by (simp add: hasRemaining_def m)
  note emb = deserializeMilestonePayload_embedded_receipt
  from emb [where c = demo and rs = "\<lparr>r_storage = ?P @ ?R @ ?S, readIndex = 0\<rparr>"
      and r = "Some (ReceiptPayload 9 4)"] a
  have 1: "\<exists>h rs1 rs2. milestoneFieldsBeforeReceipt \<lparr>r_storage = ?P @ ?R @ ?S, readIndex = 0\<rparr> = Inr (h, rs1)
        \<and> deserializePayload demo rs1 = Inr (Some (ReceiptPayload 9 4), rs2)"
    by blast
  from emb [where c = demo and rs = "\<lparr>r_storage = ?P @ ?T @ ?S, readIndex = 0\<rparr>"
      and h = "(5, 2, ?Z, ?Z, ?Z, [?Z])" and ?rs1.0 = "\<lparr>r_storage = ?P @ ?T @ ?S, readIndex = 145\<rparr>"
      and p = "TransactionPayload 7 3" and ?rs2.0 = "\<lparr>r_storage = ?P @ ?T @ ?S, readIndex = 160\<rparr>"] h f t
  have 2: "deserializeMilestonePayload demo \<lparr>r_storage = ?P @ ?T @ ?S, readIndex = 0\<rparr> =
      Inl InvalidNestedPayloadKind"
    by blast
  show ?thesis by (intro conjI a 1 f t 2)
qed

subsection \<open>A rewritten type tag\<close>

text \<open>
  \<open>retag t bs\<close> rewrites the bytes 4 to 7 of \<open>bs\<close>, the type tag of an encoded payload
  behind its length field, to the tag \<open>t\<close>; \<open>retagged t bs i\<close> is the reader on the
  rewritten bytes at the position \<open>i\<close>.
\<close>

definition retag :: "nat \<Rightarrow> byte list \<Rightarrow> byte list" where
  "retag t bs = take 4 bs @ le_bytes 4 t @ drop 8 bs"

definition retagged :: "nat \<Rightarrow> byte list \<Rightarrow> nat \<Rightarrow> ReadStream" where
  "retagged t bs i = \<lparr>r_storage = retag t bs, readIndex = i\<rparr>"

text \<open>
  The reads of the three decoders behind their check of the type tag: lines 212 to 242 of
  \<open>deserializeMilestonePayload\<close>, lines 286 to 296 of \<open>deserializeIndexationPayload\<close> and
  lines 338 to 348 of \<open>deserializeReceiptPayload\<close>. Each decoder is its check of the
  minimum length, the read of the type tag, the check of the tag and these reads.
\<close>

definition milestoneFields ::
  "('e, 'u, 'f) collaborators \<Rightarrow> ReadStream \<Rightarrow> (('e, 'u, 'f) payload) rresult" where
  "milestoneFields c rs =
     andThen (readUInt32 rs ''payloadMilestone.index'' True) (\<lambda>(index, rs).
     andThen (readUInt64 rs ''payloadMilestone.timestamp'' True) (\<lambda>(timestamp, rs).
     andThen (readFixedHex rs ''payloadMilestone.parent1MessageId'' MESSAGE_ID_LENGTH)
       (\<lambda>(parent1MessageId, rs).
     andThen (readFixedHex rs ''payloadMilestone.parent2MessageId'' MESSAGE_ID_LENGTH)
       (\<lambda>(parent2MessageId, rs).
     andThen (readFixedHex rs ''payloadMilestone.inclusionMerkleProof'' MERKLE_PROOF_LENGTH)
       (\<lambda>(inclusionMerkleProof, rs).
     andThen (readByte rs ''payloadMilestone.publicKeysCount'' True) (\<lambda>(publicKeysCount, rs).
     andThen (readFixedHexes rs ''payloadMilestone.publicKey'' PUBLIC_KEY_SIZE publicKeysCount)
       (\<lambda>(publicKeys, rs).
     andThen (deserializePayload c rs) (\<lambda>(receipt, rs).
     if receipt \<noteq> None \<and> payload_type (the receipt) \<noteq> RECEIPT_PAYLOAD_TYPE then
       Inl InvalidNestedPayloadKind
     else
       andThen (readByte rs ''payloadMilestone.signaturesCount'' True) (\<lambda>(signaturesCount, rs).
       andThen (readFixedHexes rs ''payloadMilestone.signature'' SIGNATURE_SIZE signaturesCount)
         (\<lambda>(signatures, rs).
       Inr (MilestonePayload index (Number timestamp) parent1MessageId parent2MessageId
              inclusionMerkleProof publicKeys receipt signatures, rs)))))))))))"

definition indexationFields :: "ReadStream \<Rightarrow> (('e, 'u, 'f) payload) rresult" where
  "indexationFields rs =
     andThen (readString rs ''payloadIndexation.index'') (\<lambda>(index, rs).
     andThen (readUInt32 rs ''payloadIndexation.dataLength'' True) (\<lambda>(dataLength, rs).
     andThen (readFixedHex rs ''payloadIndexation.data'' dataLength) (\<lambda>(data, rs).
     Inr (IndexationPayload index (Some data), rs))))"

definition receiptFields ::
  "('e, 'u, 'f) collaborators \<Rightarrow> ReadStream \<Rightarrow> (('e, 'u, 'f) payload) rresult" where
  "receiptFields c rs =
     andThen (readUInt32 rs ''payloadReceipt.migratedAt'' True) (\<lambda>(migratedAt, rs).
     andThen (deserializeFunds c rs) (\<lambda>(funds, rs).
     Inr (ReceiptPayload migratedAt funds, rs)))"

lemma deserializeMilestonePayload_fields:
  "deserializeMilestonePayload c rs =
     (if \<not> hasRemaining rs MIN_MILESTONE_PAYLOAD_LENGTH then
        Inl (TruncatedInput ''Milestone Payload data'' MIN_MILESTONE_PAYLOAD_LENGTH (rs_length rs))
      else
        andThen (readUInt32 rs ''payloadMilestone.type'' True) (\<lambda>(type', rs).
        if type' \<noteq> MILESTONE_PAYLOAD_TYPE then Inl (TypeTagMismatch ''payloadMilestone'' type')
        else milestoneFields c rs))"
  unfolding deserializeMilestonePayload.simps [of c rs] milestoneFields_def by (rule refl)

lemma deserializeIndexationPayload_fields:
  "deserializeIndexationPayload rs =
     (if \<not> hasRemaining rs MIN_INDEXATION_PAYLOAD_LENGTH then
        Inl (TruncatedInput ''Indexation Payload data'' MIN_INDEXATION_PAYLOAD_LENGTH (rs_length rs))
      else
        andThen (readUInt32 rs ''payloadIndexation.type'' True) (\<lambda>(type', rs).
        if type' \<noteq> INDEXATION_PAYLOAD_TYPE then Inl (TypeTagMismatch ''payloadIndexation'' type')
        else indexationFields rs))"
  unfolding deserializeIndexationPayload_def indexationFields_def by (rule refl)

lemma deserializeReceiptPayload_fields:
  "deserializeReceiptPayload c rs =
     (if \<not> hasRemaining rs (MIN_RECEIPT_PAYLOAD_LENGTH c) then
        Inl (TruncatedInput ''Receipt Payload data'' (MIN_RECEIPT_PAYLOAD_LENGTH c) (rs_length rs))
      else
        andThen (readUInt32 rs ''payloadReceipt.type'' True) (\<lambda>(type', rs).
        if type' \<noteq> RECEIPT_PAYLOAD_TYPE then Inl (TypeTagMismatch ''payloadReceipt'' type')
        else receiptFields c rs))"
  unfolding deserializeReceiptPayload_def receiptFields_def by (rule refl)

text \<open>A failure of a read is a \<open>TruncatedInput\<close> error.\<close>

lemma readByte_Inl: "readByte rs name mv = Inl e \<Longrightarrow> is_TruncatedInput e"
  by (auto simp: readByte_def elim!: andThen_InlE dest!: readBytes_Inl)

lemma readUInt64_Inl: "readUInt64 rs name mv = Inl e \<Longrightarrow> is_TruncatedInput e"
  by (auto simp: readUInt64_def elim!: andThen_InlE dest!: readBytes_Inl)

lemma readFixedHexes_Inl: "readFixedHexes rs name n k = Inl e \<Longrightarrow> is_TruncatedInput e"
proof (induction k arbitrary: rs)
  case 0
  then show ?case by simp
next
  case (Suc k)
  then show ?case
    by (auto elim!: andThen_InlE dest!: readFixedHex_Inl)
qed

lemma indexationFields_Inl:
  "(indexationFields rs :: ('e, 'u, 'f) payload rresult) = Inl e \<Longrightarrow> is_TruncatedInput e"
  unfolding indexationFields_def
  by (auto elim!: andThen_InlE dest!: readString_Inl readUInt32_Inl readFixedHex_Inl)

lemma receiptFields_Inl:
  "receiptFields c rs = Inl e \<Longrightarrow> is_TruncatedInput e \<or> (\<exists>rs'. deserializeFunds c rs' = Inl e)"
  unfolding receiptFields_def
  by (auto elim!: andThen_InlE dest!: readUInt32_Inl)

lemma milestoneSignatures_Inl: "milestoneSignatures rs = Inl e \<Longrightarrow> is_TruncatedInput e"
  unfolding milestoneSignatures_def
  by (auto elim!: andThen_InlE dest!: readByte_Inl readFixedHexes_Inl)

lemma milestoneFieldsBeforeReceipt_Inl:
  assumes "milestoneFieldsBeforeReceipt rs = Inl e"
    and "readUInt32 rs ''payloadMilestone.type'' True = Inr (MILESTONE_PAYLOAD_TYPE, rs')"
  shows "is_TruncatedInput e"
  using assms unfolding milestoneFieldsBeforeReceipt_def
  by (auto elim!: andThen_InlE
      dest!: readUInt32_Inl readUInt64_Inl readFixedHex_Inl readByte_Inl readFixedHexes_Inl)

lemma deserializeMilestonePayload_Inl:
  assumes "deserializeMilestonePayload c rs = Inl e"
    and "readUInt32 rs ''payloadMilestone.type'' True = Inr (MILESTONE_PAYLOAD_TYPE, rs')"
  shows "is_TruncatedInput e \<or> e = InvalidNestedPayloadKind
         \<or> (\<exists>h rs1. milestoneFieldsBeforeReceipt rs = Inr (h, rs1) \<and> deserializePayload c rs1 = Inl e)"
  using assms(1) milestoneFieldsBeforeReceipt_Inl [OF _ assms(2)]
  unfolding deserializeMilestonePayload_unfold
  by (auto elim!: andThen_InlE dest!: milestoneSignatures_Inl split: if_splits)

lemma serializePayload_transaction_bytes:
  assumes c: "collaborators_ok c" and e: "at_end ws"
    and s: "fst (serializePayload c ws (Some (TransactionPayload es u))) = None"
  shows "\<exists>bs. serializePayload c ws (Some (TransactionPayload es u)) =
           (None, append_ws ws (le_bytes 4 (4 + length bs) @ le_bytes 4 TRANSACTION_PAYLOAD_TYPE @ bs))"
proof -
  let ?ws1 = "append_ws ws (le_bytes 4 0)"
  have "fst (serializeTransactionPayload c ?ws1 (TransactionPayload es u)) = None"
    using serializePayload_None_variant [OF e s] by (simp add: serializeVariant_def)
  from transaction_roundtrip [OF c at_end_append this] obtain bs where
    "serializeVariant c ?ws1 (Some (TransactionPayload es u)) =
       (None, append_ws ws (le_bytes 4 0 @ le_bytes 4 TRANSACTION_PAYLOAD_TYPE @ bs))"
    by (auto simp: serializeVariant_def)
  from serializePayload_at_end [OF e this] show ?thesis by auto
qed

lemma retag_encoded:
  "retag t (le_bytes 4 n @ le_bytes 4 t0 @ rest) = le_bytes 4 n @ le_bytes 4 t @ rest"
  by (simp add: retag_def)

lemma readUInt32_tag:
  assumes "t < 2 ^ 32"
  shows "readUInt32 \<lparr>r_storage = le_bytes 4 n @ le_bytes 4 t @ rest, readIndex = 4\<rparr> name mv =
           Inr (t, \<lparr>r_storage = le_bytes 4 n @ le_bytes 4 t @ rest,
                    readIndex = (if mv then 8 else 4)\<rparr>)"
  using assms
  by (simp add: UINT32_SIZE_def hasRemaining_def readUInt32_def readBytes_def le_nat_le_bytes)

lemma deserializePayload_tag:
  assumes n: "n = 4 + length rest" "n < 2 ^ 32"
  shows "deserializePayload c \<lparr>r_storage = le_bytes 4 n @ le_bytes 4 t @ rest, readIndex = 0\<rparr> =
           deserializeVariant c \<lparr>r_storage = le_bytes 4 n @ le_bytes 4 t @ rest, readIndex = 4\<rparr>"
  using n
  by (simp add: deserializePayload_unfold MIN_PAYLOAD_LENGTH_def TYPE_LENGTH_def UINT32_SIZE_def
        hasRemaining_def readUInt32_def readBytes_def le_nat_le_bytes)

text \<open>
  Claim C4 (as amended). Let a transaction payload be encoded on a new writer, by
  collaborators that decode what they encode, into fewer than \<open>2 ^ 32 + 4\<close> bytes, and let
  its type tag be rewritten to a 32-bit tag \<open>t\<close> other than the transaction tag. Both the
  peek of \<open>deserializePayload\<close> and the read of the type tag in a variant decoder return
  the rewritten tag \<open>t\<close>. \<open>deserializePayload\<close> fails with \<open>UnknownPayloadType t\<close> when \<open>t\<close>
  is none of the four tags, and otherwise returns what the decoder of kind \<open>t\<close> returns. In
  that decoder the check of the type tag passes: its result is that of its check of the
  minimum length and of its reads of the fields behind the tag. So a value that is
  returned is a payload of kind \<open>t\<close> (never a transaction payload), and a failure is a
  failure to parse the fields: \<open>TruncatedInput\<close> for the indexation tag; that or an error
  of the funds decoder for the receipt tag; \<open>TruncatedInput\<close>, \<open>InvalidNestedPayloadKind\<close>
  or an error of the embedded payload behind the public keys for the milestone tag.
\<close>

theorem deserializePayload_retagged:
  assumes c: "collaborators_ok (c :: ('e, 'u, 'f) collaborators)"
    and s: "serializePayload c newWriteStream (Some (TransactionPayload es u)) = (None, ws)"
    and l: "length (finalBytes ws) < 2 ^ 32 + 4"
    and t: "t < 2 ^ 32" "t \<noteq> TRANSACTION_PAYLOAD_TYPE"
  shows "readUInt32 (retagged t (finalBytes ws) 4) ''payload.type'' False =
           Inr (t, retagged t (finalBytes ws) 4)
         \<and> readUInt32 (retagged t (finalBytes ws) 4) name True =
             Inr (t, retagged t (finalBytes ws) 8)
         \<and> deserializePayload c (retagged t (finalBytes ws) 0) =
           (if t = MILESTONE_PAYLOAD_TYPE then
              andThen (deserializeMilestonePayload c (retagged t (finalBytes ws) 4))
                (\<lambda>(payload, rs). Inr (Some payload, rs))
            else if t = INDEXATION_PAYLOAD_TYPE then
              andThen (deserializeIndexationPayload (retagged t (finalBytes ws) 4))
                (\<lambda>(payload, rs). Inr (Some payload, rs))
            else if t = RECEIPT_PAYLOAD_TYPE then
              andThen (deserializeReceiptPayload c (retagged t (finalBytes ws) 4))
                (\<lambda>(payload, rs). Inr (Some payload, rs))
            else Inl (UnknownPayloadType t))
         \<and> (t = MILESTONE_PAYLOAD_TYPE \<longrightarrow>
              deserializeMilestonePayload c (retagged t (finalBytes ws) 4) =
                (if \<not> hasRemaining (retagged t (finalBytes ws) 4) MIN_MILESTONE_PAYLOAD_LENGTH then
                   Inl (TruncatedInput ''Milestone Payload data'' MIN_MILESTONE_PAYLOAD_LENGTH
                          (rs_length (retagged t (finalBytes ws) 4)))
                 else milestoneFields c (retagged t (finalBytes ws) 8)))
         \<and> (t = INDEXATION_PAYLOAD_TYPE \<longrightarrow>
              (deserializeIndexationPayload (retagged t (finalBytes ws) 4)
                 :: ('e, 'u, 'f) payload rresult) =
                (if \<not> hasRemaining (retagged t (finalBytes ws) 4) MIN_INDEXATION_PAYLOAD_LENGTH then
                   Inl (TruncatedInput ''Indexation Payload data'' MIN_INDEXATION_PAYLOAD_LENGTH
                          (rs_length (retagged t (finalBytes ws) 4)))
                 else indexationFields (retagged t (finalBytes ws) 8)))
         \<and> (t = RECEIPT_PAYLOAD_TYPE \<longrightarrow>
              deserializeReceiptPayload c (retagged t (finalBytes ws) 4) =
                (if \<not> hasRemaining (retagged t (finalBytes ws) 4) (MIN_RECEIPT_PAYLOAD_LENGTH c) then
                   Inl (TruncatedInput ''Receipt Payload data'' (MIN_RECEIPT_PAYLOAD_LENGTH c)
                          (rs_length (retagged t (finalBytes ws) 4)))
                 else receiptFields c (retagged t (finalBytes ws) 8)))
         \<and> (deserializePayload c (retagged t (finalBytes ws) 0) = Inr (p, rs')
              \<longrightarrow> (\<exists>q. p = Some q \<and> payload_type q = t))
         \<and> (deserializePayload c (retagged t (finalBytes ws) 0) = Inl e \<longrightarrow>
              (t = INDEXATION_PAYLOAD_TYPE \<longrightarrow> is_TruncatedInput e)
              \<and> (t = RECEIPT_PAYLOAD_TYPE \<longrightarrow>
                   is_TruncatedInput e \<or> (\<exists>rs. deserializeFunds c rs = Inl e))
              \<and> (t = MILESTONE_PAYLOAD_TYPE \<longrightarrow>
                   is_TruncatedInput e \<or> e = InvalidNestedPayloadKind
                   \<or> (\<exists>h rs1. milestoneFieldsBeforeReceipt (retagged t (finalBytes ws) 4) = Inr (h, rs1)
                         \<and> deserializePayload c rs1 = Inl e)))"
proof -
  let ?rs0 = "retagged t (finalBytes ws) 0"
  let ?rs4 = "retagged t (finalBytes ws) 4"
  let ?rs8 = "retagged t (finalBytes ws) 8"
  from s have "fst (serializePayload c newWriteStream (Some (TransactionPayload es u))) = None"
    by simp
  from serializePayload_transaction_bytes [OF c at_end_new this] s obtain bs where
    ws: "ws = append_ws newWriteStream
           (le_bytes 4 (4 + length bs) @ le_bytes 4 TRANSACTION_PAYLOAD_TYPE @ bs)"
    by auto
  have f: "finalBytes ws = le_bytes 4 (4 + length bs) @ le_bytes 4 TRANSACTION_PAYLOAD_TYPE @ bs"
    by (simp add: ws finalBytes_append newWriteStream_def)
  have r: "retagged t (finalBytes ws) i =
      \<lparr>r_storage = le_bytes 4 (4 + length bs) @ le_bytes 4 t @ bs, readIndex = i\<rparr>" for i
    unfolding f retagged_def retag_encoded by (rule refl)
  have n: "4 + length bs < 2 ^ 32" using l by (simp add: f)
  have peek: "readUInt32 ?rs4 ''payload.type'' False = Inr (t, ?rs4)"
    unfolding r using readUInt32_tag [OF t(1), of _ _ _ False] by simp
  have tag: "readUInt32 ?rs4 name True = Inr (t, ?rs8)" for name
    unfolding r using readUInt32_tag [OF t(1), of _ _ _ True] by simp
  have env: "deserializePayload c ?rs0 = deserializeVariant c ?rs4"
    unfolding r by (rule deserializePayload_tag [OF refl n])
  have 1: "deserializePayload c ?rs0 =
           (if t = MILESTONE_PAYLOAD_TYPE then
              andThen (deserializeMilestonePayload c ?rs4) (\<lambda>(payload, rs). Inr (Some payload, rs))
            else if t = INDEXATION_PAYLOAD_TYPE then
              andThen (deserializeIndexationPayload ?rs4) (\<lambda>(payload, rs). Inr (Some payload, rs))
            else if t = RECEIPT_PAYLOAD_TYPE then
              andThen (deserializeReceiptPayload c ?rs4) (\<lambda>(payload, rs). Inr (Some payload, rs))
            else Inl (UnknownPayloadType t))"
    unfolding env deserializeVariant_def peek using t(2) by simp
  have m: "deserializeMilestonePayload c ?rs4 =
      (if \<not> hasRemaining ?rs4 MIN_MILESTONE_PAYLOAD_LENGTH then
         Inl (TruncatedInput ''Milestone Payload data'' MIN_MILESTONE_PAYLOAD_LENGTH (rs_length ?rs4))
       else milestoneFields c ?rs8)" if "t = MILESTONE_PAYLOAD_TYPE"
    unfolding deserializeMilestonePayload_fields [of c ?rs4] tag using that by simp
  have i: "(deserializeIndexationPayload ?rs4 :: ('e, 'u, 'f) payload rresult) =
      (if \<not> hasRemaining ?rs4 MIN_INDEXATION_PAYLOAD_LENGTH then
         Inl (TruncatedInput ''Indexation Payload data'' MIN_INDEXATION_PAYLOAD_LENGTH (rs_length ?rs4))
       else indexationFields ?rs8)" if "t = INDEXATION_PAYLOAD_TYPE"
    unfolding deserializeIndexationPayload_fields [of ?rs4] tag using that by simp
  have rc: "deserializeReceiptPayload c ?rs4 =
      (if \<not> hasRemaining ?rs4 (MIN_RECEIPT_PAYLOAD_LENGTH c) then
         Inl (TruncatedInput ''Receipt Payload data'' (MIN_RECEIPT_PAYLOAD_LENGTH c) (rs_length ?rs4))
       else receiptFields c ?rs8)" if "t = RECEIPT_PAYLOAD_TYPE"
    unfolding deserializeReceiptPayload_fields [of c ?rs4] tag using that by simp
  have 2: "\<exists>q. p = Some q \<and> payload_type q = t" if "deserializePayload c ?rs0 = Inr (p, rs')"
    using that unfolding 1
    by (auto elim!: andThen_InrE split: if_splits
        dest!: deserializeIndexationPayload_kind deserializeReceiptPayload_kind
          deserializeMilestonePayload_Inr
        simp: RECEIPT_PAYLOAD_TYPE_def MILESTONE_PAYLOAD_TYPE_def INDEXATION_PAYLOAD_TYPE_def)
  have 3: "is_TruncatedInput e"
    if "deserializePayload c ?rs0 = Inl e" "t = INDEXATION_PAYLOAD_TYPE"
  proof -
    from that have "(deserializeIndexationPayload ?rs4 :: ('e, 'u, 'f) payload rresult) = Inl e"
      unfolding 1
      by (auto elim!: andThen_InlE simp: MILESTONE_PAYLOAD_TYPE_def INDEXATION_PAYLOAD_TYPE_def)
    then show ?thesis unfolding i [OF that(2)]
      by (auto split: if_splits dest: indexationFields_Inl)
  qed
  have 4: "is_TruncatedInput e \<or> (\<exists>rs. deserializeFunds c rs = Inl e)"
    if "deserializePayload c ?rs0 = Inl e" "t = RECEIPT_PAYLOAD_TYPE"
  proof -
    from that have "deserializeReceiptPayload c ?rs4 = Inl e"
      unfolding 1
      by (auto elim!: andThen_InlE simp: MILESTONE_PAYLOAD_TYPE_def INDEXATION_PAYLOAD_TYPE_def
          RECEIPT_PAYLOAD_TYPE_def)
    then show ?thesis unfolding rc [OF that(2)]
      by (auto split: if_splits dest: receiptFields_Inl)
  qed
  have 5: "is_TruncatedInput e \<or> e = InvalidNestedPayloadKind
       \<or> (\<exists>h rs1. milestoneFieldsBeforeReceipt ?rs4 = Inr (h, rs1) \<and> deserializePayload c rs1 = Inl e)"
    if "deserializePayload c ?rs0 = Inl e" "t = MILESTONE_PAYLOAD_TYPE"
  proof -
    from that have "deserializeMilestonePayload c ?rs4 = Inl e"
      unfolding 1 by (auto elim!: andThen_InlE)
    then show ?thesis
      by (rule deserializeMilestonePayload_Inl) (use tag that(2) in simp)
  qed
  show ?thesis
    by (intro conjI impI peek tag 1 m i rc 2 3 4 5)
qed

lemma eval_serialize_transaction_0:
  "serializePayload demo newWriteStream (Some (TransactionPayload 0 0)) =
     (None, \<lparr>w_storage = [11, 0, 0, 0, 0, 0, 0, 0, 0, 0, 0, 0, 0, 0, 0], writeIndex = 15\<rparr>)"
  by code_simp

lemma eval_retag:
  "retag 9 [11, 0, 0, 0, 0, 0, 0, 0, 0, 7, 0, 0, 0, 3, 0] =
     [11, 0, 0, 0, 9, 0, 0, 0, 0, 7, 0, 0, 0, 3, 0]"
  "retag 2 [11, 0, 0, 0, 0, 0, 0, 0, 0, 7, 0, 0, 0, 3, 0] =
     [11, 0, 0, 0, 2, 0, 0, 0, 0, 7, 0, 0, 0, 3, 0]"
  "retag 2 [11, 0, 0, 0, 0, 0, 0, 0, 0, 0, 0, 0, 0, 0, 0] =
     [11, 0, 0, 0, 2, 0, 0, 0, 0, 0, 0, 0, 0, 0, 0]"
  by code_simp+

lemma eval_indexationFields:
  "indexationFields \<lparr>r_storage = [11, 0, 0, 0, 2, 0, 0, 0, 0, 7, 0, 0, 0, 3, 0], readIndex = 8\<rparr> =
     Inl (TruncatedInput ''payloadIndexation.index'' 1792 5)"
  "indexationFields \<lparr>r_storage = [11, 0, 0, 0, 2, 0, 0, 0, 0, 0, 0, 0, 0, 0, 0], readIndex = 8\<rparr> =
     Inr (IndexationPayload [] (Some []),
          \<lparr>r_storage = [11, 0, 0, 0, 2, 0, 0, 0, 0, 0, 0, 0, 0, 0, 0], readIndex = 14\<rparr>)"
  by (simp_all add: indexationFields_def readString_def readUInt16_def readUInt32_def
      readFixedHex_def readBytes_def hasRemaining_def unused_def UINT16_SIZE_def UINT32_SIZE_def
      bytesToAscii_def)

lemma min_lengths_demo:
  "MIN_MILESTONE_PAYLOAD_LENGTH = 210" "MIN_INDEXATION_PAYLOAD_LENGTH = 9"
  "MIN_RECEIPT_PAYLOAD_LENGTH demo = 18"
  by (simp_all add: MIN_MILESTONE_PAYLOAD_LENGTH_def MIN_INDEXATION_PAYLOAD_LENGTH_def
      MIN_RECEIPT_PAYLOAD_LENGTH_def MIN_PAYLOAD_LENGTH_def TYPE_LENGTH_def STRING_LENGTH_def
      UINT16_SIZE_def UINT32_SIZE_def UINT64_SIZE_def MESSAGE_ID_LENGTH_def MERKLE_PROOF_LENGTH_def
      BYTE_SIZE_def PUBLIC_KEY_SIZE_def SIGNATURE_SIZE_def demo_sel)

theorem deserializePayload_retagged_witness:
  "collaborators_ok demo
   \<and> serializePayload demo newWriteStream (Some (TransactionPayload 7 3)) =
       (None, \<lparr>w_storage = [11, 0, 0, 0, 0, 0, 0, 0, 0, 7, 0, 0, 0, 3, 0], writeIndex = 15\<rparr>)
   \<and> deserializePayload demo (retagged 9 [11, 0, 0, 0, 0, 0, 0, 0, 0, 7, 0, 0, 0, 3, 0] 0) =
       Inl (UnknownPayloadType 9)
   \<and> deserializePayload demo
        (retagged MILESTONE_PAYLOAD_TYPE [11, 0, 0, 0, 0, 0, 0, 0, 0, 7, 0, 0, 0, 3, 0] 0) =
       Inl (TruncatedInput ''Milestone Payload data'' 210 15)
   \<and> deserializePayload demo
        (retagged INDEXATION_PAYLOAD_TYPE [11, 0, 0, 0, 0, 0, 0, 0, 0, 7, 0, 0, 0, 3, 0] 0) =
       Inl (TruncatedInput ''payloadIndexation.index'' 1792 5)
   \<and> deserializePayload demo
        (retagged RECEIPT_PAYLOAD_TYPE [11, 0, 0, 0, 0, 0, 0, 0, 0, 7, 0, 0, 0, 3, 0] 0) =
       Inl (TruncatedInput ''Receipt Payload data'' 18 15)
   \<and> serializePayload demo newWriteStream (Some (TransactionPayload 0 0)) =
       (None, \<lparr>w_storage = [11, 0, 0, 0, 0, 0, 0, 0, 0, 0, 0, 0, 0, 0, 0], writeIndex = 15\<rparr>)
   \<and> deserializePayload demo
        (retagged INDEXATION_PAYLOAD_TYPE [11, 0, 0, 0, 0, 0, 0, 0, 0, 0, 0, 0, 0, 0, 0] 0) =
       Inr (Some (IndexationPayload [] (Some [])),
            retagged INDEXATION_PAYLOAD_TYPE [11, 0, 0, 0, 0, 0, 0, 0, 0, 0, 0, 0, 0, 0, 0] 14)
   \<and> payload_type (IndexationPayload [] (Some []) :: (32 word, 16 word, 64 word) payload) =
       INDEXATION_PAYLOAD_TYPE"
proof -
  let ?X = "[11, 0, 0, 0, 0, 0, 0, 0, 0, 7, 0, 0, 0, 3, 0] :: byte list"
  let ?Y = "[11, 0, 0, 0, 0, 0, 0, 0, 0, 0, 0, 0, 0, 0, 0] :: byte list"
  have fb: "finalBytes \<lparr>w_storage = ?X, writeIndex = 15\<rparr> = ?X"
    "finalBytes \<lparr>w_storage = ?Y, writeIndex = 15\<rparr> = ?Y"
    by (simp_all add: finalBytes_def)
  have ts: "TRANSACTION_PAYLOAD_TYPE = 0" "MILESTONE_PAYLOAD_TYPE = 1" "INDEXATION_PAYLOAD_TYPE = 2"
    "RECEIPT_PAYLOAD_TYPE = 3"
    by (simp_all add: TRANSACTION_PAYLOAD_TYPE_def MILESTONE_PAYLOAD_TYPE_def
        INDEXATION_PAYLOAD_TYPE_def RECEIPT_PAYLOAD_TYPE_def)
  have len: "length (retag t ?X) = 15" "length (retag t ?Y) = 15" for t
    by (simp_all add: retag_def)
  note T = deserializePayload_retagged [OF demo_ok eval_serialize_transaction, unfolded fb]
  note U = deserializePayload_retagged [OF demo_ok eval_serialize_transaction_0, unfolded fb]
  have 9: "deserializePayload demo (retagged 9 ?X 0) = Inl (UnknownPayloadType 9)"
    using T [of 9] by (simp add: ts)
  have 1: "deserializePayload demo (retagged MILESTONE_PAYLOAD_TYPE ?X 0) =
      Inl (TruncatedInput ''Milestone Payload data'' 210 15)"
    using T [of MILESTONE_PAYLOAD_TYPE]
    by (simp add: ts min_lengths_demo hasRemaining_def rs_length_def retagged_def len)
  have 2: "deserializePayload demo (retagged INDEXATION_PAYLOAD_TYPE ?X 0) =
      Inl (TruncatedInput ''payloadIndexation.index'' 1792 5)"
    using T [of INDEXATION_PAYLOAD_TYPE]
    by (simp add: ts min_lengths_demo hasRemaining_def rs_length_def
        retagged_def len eval_retag eval_indexationFields)
  have 3: "deserializePayload demo (retagged RECEIPT_PAYLOAD_TYPE ?X 0) =
      Inl (TruncatedInput ''Receipt Payload data'' 18 15)"
    using T [of RECEIPT_PAYLOAD_TYPE]
    by (simp add: ts min_lengths_demo hasRemaining_def rs_length_def
        retagged_def len)
  have 4: "deserializePayload demo (retagged INDEXATION_PAYLOAD_TYPE ?Y 0) =
      Inr (Some (IndexationPayload [] (Some [])), retagged INDEXATION_PAYLOAD_TYPE ?Y 14)"
    using U [of INDEXATION_PAYLOAD_TYPE]
    by (simp add: ts min_lengths_demo hasRemaining_def rs_length_def
        retagged_def len eval_retag eval_indexationFields)
  have 5: "payload_type (IndexationPayload [] (Some []) :: (32 word, 16 word, 64 word) payload) =
       INDEXATION_PAYLOAD_TYPE"
    by (simp add: ts)
  show ?thesis
    by (intro conjI demo_ok eval_serialize_transaction 9 1 2 3 eval_serialize_transaction_0 4 5)
qed

lemma eval_retag_indexation:
  "retag INDEXATION_PAYLOAD_TYPE [11, 0, 0, 0, 0, 0, 0, 0, 0, 0, 0, 0, 0, 0, 0] =
     [11, 0, 0, 0, 2, 0, 0, 0, 0, 0, 0, 0, 0, 0, 0]"
  by code_simp

lemma eval_deserialize_retagged:
  "deserializePayload demo
     \<lparr>r_storage = [11, 0, 0, 0, 2, 0, 0, 0, 0, 0, 0, 0, 0, 0, 0], readIndex = 0\<rparr> =
     Inr (Some (IndexationPayload [] (Some [])),
          \<lparr>r_storage = [11, 0, 0, 0, 2, 0, 0, 0, 0, 0, 0, 0, 0, 0, 0], readIndex = 14\<rparr>)"
  by code_simp

text \<open>
  The claim as stated asks that decoding fails for every other known tag. The transaction
  payload \<open>TransactionPayload 0 0\<close> of the instance, with its tag rewritten to the
  indexation tag, decodes to an indexation payload with an empty index and empty data.
\<close>

theorem retagged_transaction_counterexample:
  "collaborators_ok demo
   \<and> serializePayload demo newWriteStream (Some (TransactionPayload 0 0)) =
       (None, \<lparr>w_storage = [11, 0, 0, 0, 0, 0, 0, 0, 0, 0, 0, 0, 0, 0, 0], writeIndex = 15\<rparr>)
   \<and> retag INDEXATION_PAYLOAD_TYPE [11, 0, 0, 0, 0, 0, 0, 0, 0, 0, 0, 0, 0, 0, 0] =
        [11, 0, 0, 0, 2, 0, 0, 0, 0, 0, 0, 0, 0, 0, 0]
   \<and> deserializePayload demo
        \<lparr>r_storage = [11, 0, 0, 0, 2, 0, 0, 0, 0, 0, 0, 0, 0, 0, 0], readIndex = 0\<rparr> =
       Inr (Some (IndexationPayload [] (Some [])),
            \<lparr>r_storage = [11, 0, 0, 0, 2, 0, 0, 0, 0, 0, 0, 0, 0, 0, 0], readIndex = 14\<rparr>)"
  by (intro conjI demo_ok eval_serialize_transaction_0 eval_retag_indexation
      eval_deserialize_retagged)

subsection \<open>The declared length\<close>

text \<open>
  Two readers agree from the position \<open>k\<close> on when they stand at the same position, at
  or behind \<open>k\<close>, in buffers of the same length that hold the same bytes from \<open>k\<close> on.
  Two results are the same from \<open>k\<close> on when they are the same error, or the same value
  with readers that agree from \<open>k\<close> on. A decoder is local when it gives the same results
  on readers that agree: it reads forward from the read position only. The decoders of
  the collaborators are taken to be local.
\<close>

definition agree :: "nat \<Rightarrow> ReadStream \<Rightarrow> ReadStream \<Rightarrow> bool" where
  "agree k rs1 rs2 =
     (readIndex rs1 = readIndex rs2 \<and> k \<le> readIndex rs1
      \<and> length (r_storage rs1) = length (r_storage rs2)
      \<and> drop k (r_storage rs1) = drop k (r_storage rs2))"

definition same_result :: "nat \<Rightarrow> 'a rresult \<Rightarrow> 'a rresult \<Rightarrow> bool" where
  "same_result k r1 r2 =
     (case r1 of
        Inl e \<Rightarrow> r2 = Inl e
      | Inr (v1, rs1) \<Rightarrow>
          (case r2 of Inl e \<Rightarrow> False | Inr (v2, rs2) \<Rightarrow> v1 = v2 \<and> agree k rs1 rs2))"

definition local_reader :: "(ReadStream \<Rightarrow> 'a rresult) \<Rightarrow> bool" where
  "local_reader f = (\<forall>k rs1 rs2. agree k rs1 rs2 \<longrightarrow> same_result k (f rs1) (f rs2))"

definition collaborators_local :: "('e, 'u, 'f) collaborators \<Rightarrow> bool" where
  "collaborators_local c =
     (local_reader (deserializeTransactionEssence c) \<and> local_reader (deserializeUnlockBlocks c)
      \<and> local_reader (deserializeFunds c))"

lemma same_result_simps [simp]:
  "same_result k (Inl e) r \<longleftrightarrow> r = Inl e"
  "same_result k (Inr (v1, rs1)) (Inr (v2, rs2)) \<longleftrightarrow> v1 = v2 \<and> agree k rs1 rs2"
  "same_result k (Inr x) (Inl e) \<longleftrightarrow> False"
  by (auto simp: same_result_def split: prod.splits)

lemma agree_facts:
  assumes "agree k rs1 rs2"
  shows "hasRemaining rs2 n = hasRemaining rs1 n" "rs_length rs2 = rs_length rs1"
    "unused rs2 = unused rs1" "readIndex rs2 = readIndex rs1"
  using assms by (simp_all add: agree_def hasRemaining_def rs_length_def unused_def)

lemma agree_drop:
  assumes "agree k rs1 rs2"
  shows "drop (readIndex rs1) (r_storage rs1) = drop (readIndex rs2) (r_storage rs2)"
proof -
  from assms have i: "readIndex rs2 = readIndex rs1" and k: "k \<le> readIndex rs1"
    and d: "drop k (r_storage rs1) = drop k (r_storage rs2)"
    by (simp_all add: agree_def)
  have "drop (readIndex rs1 - k) (drop k (r_storage rs1)) =
        drop (readIndex rs1 - k) (drop k (r_storage rs2))"
    by (simp only: d)
  then show ?thesis using k by (simp add: i)
qed

lemma agree_move: "agree k rs1 rs2 \<Longrightarrow>
    agree k (rs1\<lparr>readIndex := readIndex rs1 + n\<rparr>) (rs2\<lparr>readIndex := readIndex rs2 + n\<rparr>)"
  by (simp add: agree_def)

lemma same_result_bind:
  assumes "same_result k m1 m2"
    and "\<And>x rs1 rs2. m1 = Inr (x, rs1) \<Longrightarrow> m2 = Inr (x, rs2) \<Longrightarrow> agree k rs1 rs2 \<Longrightarrow>
           same_result k (g1 x rs1) (g2 x rs2)"
  shows "same_result k (andThen m1 (\<lambda>(x, rs). g1 x rs)) (andThen m2 (\<lambda>(x, rs). g2 x rs))"
proof (cases m1)
  case (Inl e)
  with assms(1) show ?thesis by simp
next
  case (Inr p)
  obtain x rs1 where p: "p = (x, rs1)" by (cases p)
  with Inr assms(1) obtain rs2 where "m2 = Inr (x, rs2)" "agree k rs1 rs2"
    by (cases m2) auto
  with assms(2) [of x rs1 rs2] Inr p show ?thesis by simp
qed

lemma same_result_if:
  assumes "b1 = b2" and "b1 \<Longrightarrow> same_result k x1 y1" and "\<not> b1 \<Longrightarrow> same_result k x2 y2"
  shows "same_result k (if b1 then x1 else x2) (if b2 then y1 else y2)"
  using assms by simp

lemma same_result_readBytes:
  assumes "agree k rs1 rs2"
  shows "same_result k (readBytes rs1 name n mv) (readBytes rs2 name n mv)"
  using assms agree_drop [OF assms] agree_move [OF assms, of n]
  by (simp add: readBytes_def agree_facts [OF assms])

lemma same_result_map:
  assumes "same_result k m1 m2"
  shows "same_result k (andThen m1 (\<lambda>(x, rs). Inr (h x, rs))) (andThen m2 (\<lambda>(x, rs). Inr (h x, rs)))"
  by (rule same_result_bind [OF assms]) simp

lemma same_result_read:
  assumes "agree k rs1 rs2"
  shows "same_result k (readByte rs1 name mv) (readByte rs2 name mv)"
    and "same_result k (readUInt16 rs1 name mv) (readUInt16 rs2 name mv)"
    and "same_result k (readUInt32 rs1 name mv) (readUInt32 rs2 name mv)"
    and "same_result k (readUInt64 rs1 name mv) (readUInt64 rs2 name mv)"
    and "same_result k (readFixedHex rs1 name n) (readFixedHex rs2 name n)"
  unfolding readByte_def readUInt16_def readUInt32_def readUInt64_def readFixedHex_def
  by (rule same_result_map [OF same_result_readBytes [OF assms]])+

lemma same_result_readString:
  assumes "agree k rs1 rs2"
  shows "same_result k (readString rs1 name) (readString rs2 name)"
  unfolding readString_def
  by (intro same_result_bind same_result_read same_result_map same_result_readBytes assms)

lemma same_result_readFixedHexes:
  assumes "agree k rs1 rs2"
  shows "same_result k (readFixedHexes rs1 name n m) (readFixedHexes rs2 name n m)"
  using assms
proof (induction m arbitrary: rs1 rs2)
  case 0
  then show ?case by simp
next
  case (Suc m)
  show ?case
    unfolding readFixedHexes.simps
    by (intro same_result_bind same_result_read same_result_map Suc)
qed

lemma local_readerD: "local_reader f \<Longrightarrow> agree k rs1 rs2 \<Longrightarrow> same_result k (f rs1) (f rs2)"
  by (simp add: local_reader_def)

lemma same_result_deserializeTransactionPayload:
  assumes c: "collaborators_local c" and a: "agree k rs1 rs2"
  shows "same_result k (deserializeTransactionPayload c rs1) (deserializeTransactionPayload c rs2)"
proof -
  from c have l: "local_reader (deserializeTransactionEssence c)"
    "local_reader (deserializeUnlockBlocks c)"
    by (simp_all add: collaborators_local_def)
  show ?thesis
    unfolding deserializeTransactionPayload_def
    by (intro same_result_if same_result_bind same_result_read local_readerD [OF l(1)]
        local_readerD [OF l(2)])
      (simp_all add: agree_facts [OF a] a)
qed

lemma same_result_deserializeIndexationPayload:
  assumes a: "agree k rs1 rs2"
  shows "same_result k (deserializeIndexationPayload rs1 :: ('e, 'u, 'f) payload rresult)
           (deserializeIndexationPayload rs2)"
  unfolding deserializeIndexationPayload_def
  by (intro same_result_if same_result_bind same_result_read same_result_readString)
    (simp_all add: agree_facts [OF a] a)

lemma same_result_deserializeReceiptPayload:
  assumes c: "collaborators_local c" and a: "agree k rs1 rs2"
  shows "same_result k (deserializeReceiptPayload c rs1) (deserializeReceiptPayload c rs2)"
proof -
  from c have l: "local_reader (deserializeFunds c)"
    by (simp_all add: collaborators_local_def)
  show ?thesis
    unfolding deserializeReceiptPayload_def
    by (intro same_result_if same_result_bind same_result_read local_readerD [OF l])
      (simp_all add: agree_facts [OF a] a)
qed

lemma same_result_precheck:
  assumes "agree k rs1 rs2" and "hasRemaining rs1 n \<Longrightarrow> same_result k x y"
  shows "same_result k
           (if \<not> hasRemaining rs1 n then Inl (TruncatedInput name n (rs_length rs1)) else x)
           (if \<not> hasRemaining rs2 n then Inl (TruncatedInput name n (rs_length rs2)) else y)"
  using assms by (simp add: agree_facts [OF assms(1)])

lemma same_result_precheck_unused:
  assumes "agree k rs1 rs2" and "hasRemaining rs1 n \<Longrightarrow> same_result k x y"
  shows "same_result k
           (if \<not> hasRemaining rs1 n then Inl (TruncatedInput name n (unused rs1)) else x)
           (if \<not> hasRemaining rs2 n then Inl (TruncatedInput name n (unused rs2)) else y)"
  using assms by (simp add: agree_facts [OF assms(1)])

lemma same_result_cases:
  assumes "b \<Longrightarrow> same_result k x1 y1" and "\<not> b \<Longrightarrow> same_result k x2 y2"
  shows "same_result k (if b then x1 else x2) (if b then y1 else y2)"
  using assms by simp

lemma same_result_Inl: "same_result k (Inl e) (Inl e)"
  by simp

lemma same_result_Inr: "agree k rs1 rs2 \<Longrightarrow> same_result k (Inr (v, rs1)) (Inr (v, rs2))"
  by simp

lemmas same_result_intros =
  same_result_precheck same_result_precheck_unused same_result_cases same_result_bind
  same_result_read same_result_readString same_result_readFixedHexes same_result_Inl
  same_result_Inr

lemma same_result_deserializePayload:
  "collaborators_local c \<Longrightarrow> agree k rs rs2 \<Longrightarrow>
     same_result k (deserializePayload c rs) (deserializePayload c rs2)"
  and same_result_deserializeMilestonePayload:
  "collaborators_local c \<Longrightarrow> agree k rs rs2 \<Longrightarrow>
     same_result k (deserializeMilestonePayload c rs) (deserializeMilestonePayload c rs2)"
proof (induction c rs and c rs arbitrary: k rs2 and k rs2
    rule: deserializePayload_deserializeMilestonePayload.induct)
  case (1 c rs)
  note c = "1.prems"(1) and a = "1.prems"(2)
  show ?case
    unfolding deserializePayload.simps [of c rs] deserializePayload.simps [of c rs2]
    apply (intro same_result_intros a same_result_deserializeTransactionPayload [OF c]
        same_result_deserializeIndexationPayload same_result_deserializeReceiptPayload [OF c])
    apply assumption+
    apply (rule "1.IH" [OF _ _ refl _ _ _ refl])
    apply (assumption | simp add: c)+
    done
next
  case (2 c rs)
  note c = "2.prems"(1) and a = "2.prems"(2)
  show ?case
    unfolding deserializeMilestonePayload.simps [of c rs] deserializeMilestonePayload.simps [of c rs2]
    apply (intro same_result_intros a)
    apply assumption+
    apply (rule "2.IH" [OF _ _ refl _ _ refl _ refl _ refl _ refl _ refl _ refl _ refl])
    apply (assumption | simp add: c)+
    done
qed

lemma same_result_deserializeVariant:
  assumes c: "collaborators_local c" and a: "agree k rs1 rs2"
  shows "same_result k (deserializeVariant c rs1) (deserializeVariant c rs2)"
  unfolding deserializeVariant_def
  by (intro same_result_intros a same_result_deserializeTransactionPayload [OF c]
      same_result_deserializeMilestonePayload [OF c] same_result_deserializeIndexationPayload
      same_result_deserializeReceiptPayload [OF c])

lemma deserializePayload_declared_length:
  assumes "0 < L" "L \<le> length body" "L < 2 ^ 32"
  shows "deserializePayload c \<lparr>r_storage = pre @ le_bytes 4 L @ body, readIndex = length pre\<rparr> =
           deserializeVariant c \<lparr>r_storage = pre @ le_bytes 4 L @ body, readIndex = length pre + 4\<rparr>"
  using assms
  by (simp add: deserializePayload_unfold MIN_PAYLOAD_LENGTH_def TYPE_LENGTH_def UINT32_SIZE_def
        hasRemaining_def readUInt32_def readBytes_def le_nat_le_bytes)

lemma same_resultD:
  assumes "same_result k r1 r2"
  shows "r1 = Inl e \<longleftrightarrow> r2 = Inl e"
    and "r1 = Inr (v, rs1) \<Longrightarrow> \<exists>rs2. r2 = Inr (v, rs2) \<and> readIndex rs2 = readIndex rs1"
    and "r2 = Inr (v, rs2) \<Longrightarrow> \<exists>rs1. r1 = Inr (v, rs1) \<and> readIndex rs1 = readIndex rs2"
  using assms
  by (cases r1; cases r2; auto simp: agree_def)+

text \<open>
  Claim C8. Take two buffers that hold the same bytes before a length field and the same
  bytes \<open>body\<close> behind it, and whose length fields hold the declared lengths \<open>L1\<close> and
  \<open>L2\<close>, both above 0 and at most the number of bytes of \<open>body\<close> (and below \<open>2 ^ 32\<close>,
  so that the four bytes hold them). With local decoders of the collaborators,
  \<open>deserializePayload\<close> at the length field gives the same result on both: the same error,
  or the same value at the same read position. The declared length only passes the check
  of the remaining bytes; the result is that of the dispatch on the type tag at the
  position behind the length field, which the declared length does not reach.
\<close>

theorem deserializePayload_declared_length_unused:
  assumes c: "collaborators_local c"
    and L1: "0 < L1" "L1 \<le> length body" "L1 < 2 ^ 32"
    and L2: "0 < L2" "L2 \<le> length body" "L2 < 2 ^ 32"
  shows "same_result (length pre + 4)
           (deserializePayload c \<lparr>r_storage = pre @ le_bytes 4 L1 @ body, readIndex = length pre\<rparr>)
           (deserializePayload c \<lparr>r_storage = pre @ le_bytes 4 L2 @ body, readIndex = length pre\<rparr>)
         \<and> (deserializePayload c \<lparr>r_storage = pre @ le_bytes 4 L1 @ body, readIndex = length pre\<rparr> = Inl e
              \<longleftrightarrow> deserializePayload c \<lparr>r_storage = pre @ le_bytes 4 L2 @ body, readIndex = length pre\<rparr> = Inl e)
         \<and> (deserializePayload c \<lparr>r_storage = pre @ le_bytes 4 L1 @ body, readIndex = length pre\<rparr> = Inr (v, rs1)
              \<longrightarrow> (\<exists>rs2. deserializePayload c
                            \<lparr>r_storage = pre @ le_bytes 4 L2 @ body, readIndex = length pre\<rparr> = Inr (v, rs2)
                         \<and> readIndex rs2 = readIndex rs1))
         \<and> deserializePayload c \<lparr>r_storage = pre @ le_bytes 4 L1 @ body, readIndex = length pre\<rparr> =
             deserializeVariant c
               \<lparr>r_storage = pre @ le_bytes 4 L1 @ body, readIndex = length pre + 4\<rparr>"
proof -
  let ?r1 = "\<lparr>r_storage = pre @ le_bytes 4 L1 @ body, readIndex = length pre + 4\<rparr>"
  let ?r2 = "\<lparr>r_storage = pre @ le_bytes 4 L2 @ body, readIndex = length pre + 4\<rparr>"
  have "agree (length pre + 4) ?r1 ?r2" by (simp add: agree_def)
  from same_result_deserializeVariant [OF c this]
  have s: "same_result (length pre + 4)
      (deserializePayload c \<lparr>r_storage = pre @ le_bytes 4 L1 @ body, readIndex = length pre\<rparr>)
      (deserializePayload c \<lparr>r_storage = pre @ le_bytes 4 L2 @ body, readIndex = length pre\<rparr>)"
    by (simp only: deserializePayload_declared_length [OF L1] deserializePayload_declared_length [OF L2])
  show ?thesis
    using s same_resultD(1) [OF s, of e] same_resultD(2) [OF s, of v rs1]
      deserializePayload_declared_length [OF L1, of c pre]
    by blast
qed

lemma demo_local: "collaborators_local demo"
  unfolding collaborators_local_def local_reader_def demo_sel
  by (intro conjI allI impI same_result_intros) assumption+

lemma le_bytes_lengths: "le_bytes 4 11 = [11, 0, 0, 0]" "le_bytes 4 3 = [3, 0, 0, 0]"
  by code_simp+

theorem deserializePayload_declared_length_unused_witness:
  "collaborators_local demo
   \<and> deserializePayload demo
       \<lparr>r_storage = [11, 0, 0, 0, 2, 0, 0, 0, 1, 0, 65, 0, 0, 0, 0], readIndex = 0\<rparr> =
       Inr (Some (IndexationPayload ''A'' (Some [])),
            \<lparr>r_storage = [11, 0, 0, 0, 2, 0, 0, 0, 1, 0, 65, 0, 0, 0, 0], readIndex = 15\<rparr>)
   \<and> (\<exists>rs2. deserializePayload demo
                \<lparr>r_storage = [3, 0, 0, 0, 2, 0, 0, 0, 1, 0, 65, 0, 0, 0, 0], readIndex = 0\<rparr> =
              Inr (Some (IndexationPayload ''A'' (Some [])), rs2)
            \<and> readIndex rs2 = 15)"
proof -
  let ?body = "[2, 0, 0, 0, 1, 0, 65, 0, 0, 0, 0] :: byte list"
  from deserializePayload_declared_length_unused [OF demo_local, of 11 ?body 3 "[]"
      _ "Some (IndexationPayload ''A'' (Some []))"
      "\<lparr>r_storage = [11, 0, 0, 0, 2, 0, 0, 0, 1, 0, 65, 0, 0, 0, 0], readIndex = 15\<rparr>"]
  have "\<exists>rs2. deserializePayload demo
                \<lparr>r_storage = [3, 0, 0, 0, 2, 0, 0, 0, 1, 0, 65, 0, 0, 0, 0], readIndex = 0\<rparr> =
              Inr (Some (IndexationPayload ''A'' (Some [])), rs2)
            \<and> readIndex rs2 = 15"
    by (simp add: le_bytes_lengths eval_deserialize_indexation_A)
  then show ?thesis
    by (intro conjI demo_local eval_deserialize_indexation_A)
qed

end
